theory Spec2Isabelle
  imports Main "HOL-Library.Word"
begin

section \<open>Constants and character helpers\<close>

text \<open>
  The program is one translation unit, \<^verbatim>\<open>Activision Programming Test.cpp\<close>.
  \<^verbatim>\<open>uint\<close> is \<^verbatim>\<open>unsigned int\<close>, 32 bits wide; \<^verbatim>\<open>int\<close> is its signed
  counterpart; \<^verbatim>\<open>size_t\<close> loop counters never exceed \<open>2 ^ 32\<close> here and are
  modelled as \<open>nat\<close>.
\<close>

type_synonym uint = "32 word"

definition ALPHABETLENGTH :: nat where
  "ALPHABETLENGTH = 26"

definition MAXWORDLENGTH :: nat where
  "MAXWORDLENGTH = 255"

text \<open>The value of a \<^verbatim>\<open>char\<close> as an \<^verbatim>\<open>int\<close> (plain \<^verbatim>\<open>char\<close> is signed).\<close>

definition char_int :: "char \<Rightarrow> int" where
  "char_int c = (if (of_char c :: nat) < 128 then int (of_char c) else int (of_char c) - 256)"

text \<open>\<^verbatim>\<open>constexpr int alphabetindex(char letter) { return letter - 'a'; }\<close>\<close>

definition alphabetindex :: "char \<Rightarrow> int" where
  "alphabetindex letter = char_int letter - char_int CHR ''a''"

text \<open>
  \<^verbatim>\<open>isalpha\<close> and \<^verbatim>\<open>tolower\<close> of the C library in the "C" locale, on the ASCII
  files the source assumes: the letters are \<^verbatim>\<open>A\<close>..\<^verbatim>\<open>Z\<close> and
  \<^verbatim>\<open>a\<close>..\<^verbatim>\<open>z\<close>, and no other character is changed.
\<close>

definition isalpha_c :: "char \<Rightarrow> bool" where
  "isalpha_c c = ((65 \<le> (of_char c :: nat) \<and> (of_char c :: nat) \<le> 90) \<or>
                  (97 \<le> (of_char c :: nat) \<and> (of_char c :: nat) \<le> 122))"

definition tolower_c :: "char \<Rightarrow> char" where
  "tolower_c c = (if 65 \<le> (of_char c :: nat) \<and> (of_char c :: nat) \<le> 90
                  then char_of ((of_char c :: nat) + 32) else c)"

text \<open>The upper-case form of a character, used to state case-insensitivity.\<close>

definition toupper_c :: "char \<Rightarrow> char" where
  "toupper_c c = (if 97 \<le> (of_char c :: nat) \<and> (of_char c :: nat) \<le> 122
                  then char_of ((of_char c :: nat) - 32) else c)"

definition uppercase :: "string \<Rightarrow> string" where
  "uppercase w = map toupper_c w"

text \<open>A lower-case letter \<^verbatim>\<open>a\<close>..\<^verbatim>\<open>z\<close>.\<close>

definition lower_letter :: "char \<Rightarrow> bool" where
  "lower_letter c = (97 \<le> (of_char c :: nat) \<and> (of_char c :: nat) \<le> 122)"

section \<open>Errors\<close>

text \<open>
  One constructor for each \<^verbatim>\<open>throw\<close> of the source, and \<open>OutOfBounds\<close> for an
  array access outside its allocation, which the source does not check.
\<close>

datatype error =
    OutOfBounds
  | WheelFileUnavailable
  | InvalidWheelCount
  | InvalidLettersPerWheel
  | TooManyLetters
  | InsufficientLetters
  | NonAlphabetical
  | DictionaryUnavailable
  | WordTooLong

section \<open>The lock and the matcher\<close>

text \<open>
  \<^verbatim>\<open>bool** wheels\<close>: one array of \<^verbatim>\<open>ALPHABETLENGTH\<close> flags for each wheel.
\<close>

type_synonym wheels = "bool list list"

definition lock_ok :: "wheels \<Rightarrow> uint \<Rightarrow> bool" where
  "lock_ok wheels wheelCount =
     (length wheels = unat wheelCount \<and> list_all (\<lambda>w. length w = ALPHABETLENGTH) wheels)"

text \<open>The read \<^verbatim>\<open>wheels[i][k]\<close>.\<close>

definition wheel_read :: "wheels \<Rightarrow> nat \<Rightarrow> int \<Rightarrow> error + bool" where
  "wheel_read wheels i k =
     (if i < length wheels \<and> 0 \<le> k \<and> nat k < length (wheels ! i)
      then Inr (wheels ! i ! nat k) else Inl OutOfBounds)"

text \<open>The read \<^verbatim>\<open>word[j]\<close> of a word of \<open>length word\<close> characters.\<close>

definition word_read :: "string \<Rightarrow> nat \<Rightarrow> error + char" where
  "word_read word j = (if j < length word then Inr (word ! j) else Inl OutOfBounds)"

text \<open>
  The inner loop of \<^verbatim>\<open>TestWord\<close>, from position \<open>j\<close> on: \<open>Inr match\<close>, with the
  \<^verbatim>\<open>break\<close> at the first letter the wheel does not hold. The wheel store is passed
  through, since \<^verbatim>\<open>TestWord\<close> receives it as a pointer to mutable data.
\<close>

function TestWord_inner ::
  "wheels \<Rightarrow> string \<Rightarrow> nat \<Rightarrow> nat \<Rightarrow> nat \<Rightarrow> (error + bool) \<times> wheels" where
  "TestWord_inner wheels word wordLength i j =
     (if j < wordLength then
        (case word_read word j of
           Inl e \<Rightarrow> (Inl e, wheels)
         | Inr c \<Rightarrow>
             (case wheel_read wheels (i + j) (alphabetindex c) of
                Inl e \<Rightarrow> (Inl e, wheels)
              | Inr b \<Rightarrow>
                  if \<not> b then (Inr False, wheels)
                  else TestWord_inner wheels word wordLength i (Suc j)))
      else (Inr True, wheels))"
  by pat_completeness auto
termination
  by (relation "measure (\<lambda>(wheels, word, wordLength, i, j). wordLength - j)") auto

declare TestWord_inner.simps [simp del]

text \<open>The outer loop, \<^verbatim>\<open>for (size_t i = 0; i <= space; i++)\<close>, from offset \<open>i\<close> on.\<close>

function TestWord_outer ::
  "wheels \<Rightarrow> string \<Rightarrow> nat \<Rightarrow> nat \<Rightarrow> nat \<Rightarrow> uint \<Rightarrow> (error + uint) \<times> wheels" where
  "TestWord_outer wheels word wordLength space i count =
     (if i \<le> space then
        (case TestWord_inner wheels word wordLength i 0 of
           (Inl e, wheels') \<Rightarrow> (Inl e, wheels')
         | (Inr match, wheels') \<Rightarrow>
             TestWord_outer wheels' word wordLength space (Suc i)
               (if match then count + 1 else count))
      else (Inr count, wheels))"
  by pat_completeness auto
termination
  by (relation "measure (\<lambda>(wheels, word, wordLength, space, i, count). Suc space - i)") auto

declare TestWord_outer.simps [simp del]

text \<open>
  \<^verbatim>\<open>int TestWord(bool** wheels, const char* word, const uint wordLength, const uint wheelCount)\<close>.
  \<^verbatim>\<open>space\<close> is an unsigned difference and wraps; the \<^verbatim>\<open>uint\<close> count is returned
  as an \<^verbatim>\<open>int\<close>.
\<close>

definition TestWord :: "wheels \<Rightarrow> string \<Rightarrow> uint \<Rightarrow> uint \<Rightarrow> (error + int) \<times> wheels" where
  "TestWord wheels word wordLength wheelCount =
     (let space = wheelCount - wordLength in
      case TestWord_outer wheels word (unat wordLength) (unat space) 0 0 of
        (Inl e, wheels') \<Rightarrow> (Inl e, wheels')
      | (Inr count, wheels') \<Rightarrow> (Inr (sint count), wheels'))"

text \<open>
  The offsets at which a word lines up with the lock: every letter of the word is on the
  wheel it faces.
\<close>

definition matches_at :: "wheels \<Rightarrow> string \<Rightarrow> nat \<Rightarrow> bool" where
  "matches_at wheels word s =
     list_all (\<lambda>j. wheels ! (s + j) ! nat (alphabetindex (word ! j))) [0..<length word]"

text \<open>The matching offsets among \<open>0 .. W - L\<close>, in increasing order.\<close>

definition match_offsets :: "wheels \<Rightarrow> string \<Rightarrow> nat list" where
  "match_offsets wheels word =
     filter (matches_at wheels word) [0..<Suc (length wheels - length word)]"

section \<open>Input streams\<close>

text \<open>
  \<^verbatim>\<open>std::ifstream\<close> as far as the program uses it: the characters not yet read
  (as a stream opened in text mode delivers them, a line end being one character) and
  the two state bits the program tests. A file that cannot be opened is \<open>None\<close>.
\<close>

record istream =
  buf :: string
  eofbit :: bool
  failbit :: bool

definition open_file :: "string option \<Rightarrow> istream" where
  "open_file file =
     (case file of
        None \<Rightarrow> \<lparr>buf = [], eofbit = False, failbit = True\<rparr>
      | Some content \<Rightarrow> \<lparr>buf = content, eofbit = False, failbit = False\<rparr>)"

definition good :: "istream \<Rightarrow> bool" where
  "good s = (\<not> eofbit s \<and> \<not> failbit s)"

definition NUL :: char where
  "NUL = CHR 0x00"

definition NL :: char where
  "NL = CHR 0x0A"

definition isspace_c :: "char \<Rightarrow> bool" where
  "isspace_c c = ((of_char c :: nat) = 32 \<or> (9 \<le> (of_char c :: nat) \<and> (of_char c :: nat) \<le> 13))"

definition isdigit_c :: "char \<Rightarrow> bool" where
  "isdigit_c c = (48 \<le> (of_char c :: nat) \<and> (of_char c :: nat) \<le> 57)"

text \<open>The value of a string of decimal digits.\<close>

definition decimal :: "string \<Rightarrow> int" where
  "decimal ds = foldl (\<lambda>a d. 10 * a + ((of_char d :: int) - 48)) 0 ds"

text \<open>
  The digits of the number that starts a text, after white space and an optional sign:
  the field that \<^verbatim>\<open>operator>>\<close> converts.
\<close>

definition skip_sign :: "string \<Rightarrow> string" where
  "skip_sign b = (case b of [] \<Rightarrow> [] | c # cs \<Rightarrow> if c = CHR ''-'' \<or> c = CHR ''+'' then cs else b)"

definition number_field :: "string \<Rightarrow> string" where
  "number_field b = takeWhile isdigit_c (skip_sign (dropWhile isspace_c b))"

text \<open>
  \<^verbatim>\<open>stream >> v\<close> for an \<^verbatim>\<open>unsigned int\<close> \<open>v\<close>. A stream that is not good, or that
  ends in the leading white space, fails and leaves \<open>v\<close> as it was; a field without
  digits fails and stores 0; a value that does not fit fails and stores the largest
  value; a minus sign negates the value modulo \<open>2 ^ 32\<close>. Reading up to the end of the
  file sets \<open>eofbit\<close>.
\<close>

definition extract_uint :: "istream \<Rightarrow> uint \<Rightarrow> uint \<times> istream" where
  "extract_uint s v =
     (if \<not> good s then (v, s\<lparr>failbit := True\<rparr>)
      else
        let b = dropWhile isspace_c (buf s) in
        if b = [] then (v, \<lparr>buf = [], eofbit = True, failbit = True\<rparr>)
        else
          let neg = (hd b = CHR ''-'');
              ds = takeWhile isdigit_c (skip_sign b);
              rest = dropWhile isdigit_c (skip_sign b);
              n = decimal ds
          in
            if ds = [] then (0, \<lparr>buf = rest, eofbit = (rest = []), failbit = True\<rparr>)
            else if 2 ^ 32 \<le> n then (- 1, \<lparr>buf = rest, eofbit = (rest = []), failbit = True\<rparr>)
            else (if neg then - word_of_int n else word_of_int n,
                  \<lparr>buf = rest, eofbit = (rest = []), failbit = False\<rparr>))"

text \<open>
  The extraction loop of \<^verbatim>\<open>getline(s, n)\<close> with room for \<open>k = n - 1\<close> more
  characters: the characters stored, the text left, and whether the end of the file was
  met, and whether the room ran out before the line did. The tests are made in the
  order of the library: end of file, then the delimiter (extracted, not stored), then the room.
\<close>

fun getline_scan :: "string \<Rightarrow> nat \<Rightarrow> string \<times> string \<times> bool \<times> bool" where
  "getline_scan [] k = ([], [], True, False)"
| "getline_scan (c # cs) k =
     (if c = NL then ([], cs, False, False)
      else if k = 0 then ([], c # cs, False, True)
      else (case getline_scan cs (k - 1) of (l, r, e, f) \<Rightarrow> (c # l, r, e, f)))"

text \<open>
  \<^verbatim>\<open>stream.getline(s, n)\<close>: the characters stored before the terminator, and the
  stream afterwards. It fails on a stream that is not good, when the room runs out, and
  when no character at all was extracted.
\<close>

definition getline :: "istream \<Rightarrow> nat \<Rightarrow> string \<times> istream" where
  "getline s n =
     (if \<not> good s then ([], s\<lparr>failbit := True\<rparr>)
      else
        (case getline_scan (buf s) (n - 1) of
           (l, r, e, f) \<Rightarrow> (l, \<lparr>buf = r, eofbit = e, failbit = (f \<or> (e \<and> l = []))\<rparr>)))"

section \<open>Reading the lock\<close>

text \<open>The write \<^verbatim>\<open>wheels[i][k] = true\<close>.\<close>

definition wheel_set :: "wheels \<Rightarrow> nat \<Rightarrow> int \<Rightarrow> error + wheels" where
  "wheel_set wheels i k =
     (if i < length wheels \<and> 0 \<le> k \<and> nat k < length (wheels ! i)
      then Inr (wheels[i := (wheels ! i)[nat k := True]]) else Inl OutOfBounds)"

text \<open>
  The \<^verbatim>\<open>letters\<close> buffer after \<^verbatim>\<open>getline\<close> has stored a line and its terminator
  at the front; what lay behind stays.
\<close>

definition store_line :: "string \<Rightarrow> string \<Rightarrow> string" where
  "store_line line letters = line @ [NUL] @ drop (Suc (length line)) letters"

text \<open>The loop over the letters of wheel \<open>i\<close>, from position \<open>j\<close> on.\<close>

function ReadWheelFile_letters ::
  "wheels \<Rightarrow> string \<Rightarrow> nat \<Rightarrow> nat \<Rightarrow> nat \<Rightarrow> error + wheels" where
  "ReadWheelFile_letters wheels letters lettersPerWheel i j =
     (if j < lettersPerWheel then
        (if j < length letters then
           (if \<not> isalpha_c (letters ! j) then
              (if letters ! j = NUL then Inl InsufficientLetters else Inl NonAlphabetical)
            else
              (case wheel_set wheels i (alphabetindex (tolower_c (letters ! j))) of
                 Inl e \<Rightarrow> Inl e
               | Inr wheels' \<Rightarrow> ReadWheelFile_letters wheels' letters lettersPerWheel i (Suc j)))
         else Inl OutOfBounds)
      else Inr wheels)"
  by pat_completeness auto
termination
  by (relation "measure (\<lambda>(wheels, letters, lettersPerWheel, i, j). lettersPerWheel - j)") auto

declare ReadWheelFile_letters.simps [simp del]

text \<open>The loop over the wheels, from wheel \<open>i\<close> on.\<close>

function ReadWheelFile_wheels ::
  "istream \<Rightarrow> wheels \<Rightarrow> string \<Rightarrow> uint \<Rightarrow> uint \<Rightarrow> nat \<Rightarrow> error + wheels \<times> string" where
  "ReadWheelFile_wheels s wheels letters wheelCount lettersPerWheel i =
     (if i < unat wheelCount then
        (case getline s (unat (lettersPerWheel + 1)) of
           (line, s') \<Rightarrow>
             if failbit s' then Inl TooManyLetters
             else
               (case ReadWheelFile_letters wheels (store_line line letters)
                       (unat lettersPerWheel) i 0 of
                  Inl e \<Rightarrow> Inl e
                | Inr wheels' \<Rightarrow>
                    ReadWheelFile_wheels s' wheels' (store_line line letters)
                      wheelCount lettersPerWheel (Suc i)))
      else Inr (wheels, letters))"
  by pat_completeness auto
termination
  by (relation "measure (\<lambda>(s, wheels, letters, wheelCount, lettersPerWheel, i). unat wheelCount - i)")
    auto

declare ReadWheelFile_wheels.simps [simp del]

text \<open>What \<^verbatim>\<open>ReadWheelFile\<close> leaves in its four reference parameters.\<close>

record lock =
  lock_wheels :: wheels
  lock_letters :: string
  lock_wheelCount :: uint
  lock_lettersPerWheel :: uint

text \<open>
  \<^verbatim>\<open>void ReadWheelFile(bool**& wheels, char*& letters, uint& wheelCount, uint& lettersPerWheel)\<close>
  on the contents of \<^verbatim>\<open>wheels.txt\<close>. The two counts come in with the values the
  caller gave them; \<^verbatim>\<open>main\<close> passes 0. Every \<^verbatim>\<open>new\<close> is taken to succeed,
  and the loop that allocates the wheels to run \<^verbatim>\<open>wheelCount\<close> times, as its
  unsigned comparison says. The buffer \<^verbatim>\<open>letters\<close> has
  \<^verbatim>\<open>lettersPerWheel + 1\<close> characters, a \<^verbatim>\<open>uint\<close> sum, and
  \<^verbatim>\<open>getline(letters, 1)\<close> stores a terminator in its first.
\<close>

definition ReadWheelFile :: "string option \<Rightarrow> uint \<Rightarrow> uint \<Rightarrow> error + lock" where
  "ReadWheelFile file wheelCount0 lettersPerWheel0 =
     (let s0 = open_file file in
      if \<not> good s0 then Inl WheelFileUnavailable
      else
        (case extract_uint s0 wheelCount0 of
           (wheelCount, s1) \<Rightarrow>
             if wheelCount = 0 then Inl InvalidWheelCount
             else
               let wheels = replicate (unat wheelCount) (replicate ALPHABETLENGTH False) in
               (case extract_uint s1 lettersPerWheel0 of
                  (lettersPerWheel, s2) \<Rightarrow>
                    if lettersPerWheel = 0 then Inl InvalidLettersPerWheel
                    else
                      let letters = replicate (unat (lettersPerWheel + 1)) NUL in
                      if length letters < 1 then Inl OutOfBounds
                      else
                        (case getline s2 1 of
                           (line, s3) \<Rightarrow>
                             (case ReadWheelFile_wheels s3 wheels (store_line line letters)
                                     wheelCount lettersPerWheel 0 of
                                Inl e \<Rightarrow> Inl e
                              | Inr (wheels', letters') \<Rightarrow>
                                  Inr \<lparr>lock_wheels = wheels', lock_letters = letters',
                                       lock_wheelCount = wheelCount,
                                       lock_lettersPerWheel = lettersPerWheel\<rparr>)))))"

section \<open>Processing the dictionary\<close>

text \<open>What the program writes to \<^verbatim>\<open>std::cout\<close>, line by line.\<close>

datatype out_line =
    PrintWord string
  | PrintFound uint
  | PrintError error
  | PrintExit
  | Undefined

text \<open>
  The body of the loop of \<^verbatim>\<open>ProcessDictionary\<close> once a line has been read into
  \<^verbatim>\<open>word\<close>: the new total, the output and the wheel store. The word is the line up
  to its first terminator (\<^verbatim>\<open>strlen\<close>); every character is tested with
  \<^verbatim>\<open>isalpha\<close> and lowered in place.
\<close>

definition ProcessDictionary_word ::
  "wheels \<Rightarrow> uint \<Rightarrow> string \<Rightarrow> uint \<Rightarrow> out_line list \<Rightarrow> error + uint \<times> out_line list \<times> wheels" where
  "ProcessDictionary_word wheels wheelCount line count out =
     (let word = takeWhile (\<lambda>c. c \<noteq> NUL) line;
          len = (of_nat (length word) :: uint);
          validWord = list_all isalpha_c word;
          word = map tolower_c word
      in
        if \<not> validWord then Inr (count, out, wheels)
        else if len > wheelCount then Inr (count, out, wheels)
        else
          (case TestWord wheels word len wheelCount of
             (Inl e, wheels') \<Rightarrow> Inl e
           | (Inr r, wheels') \<Rightarrow>
               let matches = (word_of_int r :: uint) in
               if matches > 0 then Inr (count + matches, out @ [PrintWord word], wheels')
               else Inr (count, out, wheels')))"

text \<open>
  Each \<^verbatim>\<open>getline\<close> that leaves the stream good has used up at least one
  character, so the loop below comes to an end.
\<close>

lemma getline_scan_shorter:
  "getline_scan b k = (l, r, e, f) \<Longrightarrow> \<not> e \<Longrightarrow> \<not> f \<Longrightarrow> length r < length b"
proof (induction b arbitrary: k l)
  case Nil
  then show ?case by simp
next
  case (Cons c cs)
  then show ?case
    by (fastforce split: if_splits prod.splits)
qed

lemma getline_progress:
  assumes "(line, s') = getline s n" and "good s" and "\<not> failbit s'" and "good s'"
  shows "length (buf s') < length (buf s)"
proof (cases "getline_scan (buf s) (n - 1)")
  case (fields l r e f)
  with assms(1,2) have s': "s' = \<lparr>buf = r, eofbit = e, failbit = (f \<or> (e \<and> l = []))\<rparr>"
    by (auto simp: getline_def)
  with assms(3,4) have "\<not> e" and "\<not> f" by (auto simp: good_def)
  with fields have "length r < length (buf s)" by (rule getline_scan_shorter)
  with s' show ?thesis by simp
qed

text \<open>
  The loop \<^verbatim>\<open>while (!dictionaryFile.eof() && dictionaryFile.good())\<close>, with the
  output written so far; what was printed before an exception stays printed.
\<close>

function ProcessDictionary_loop ::
  "wheels \<Rightarrow> uint \<Rightarrow> istream \<Rightarrow> uint \<Rightarrow> out_line list \<Rightarrow> out_line list \<times> (error + uint) \<times> wheels" where
  "ProcessDictionary_loop wheels wheelCount s count out =
     (if \<not> eofbit s \<and> good s then
        (case getline s (MAXWORDLENGTH + 1) of
           (line, s') \<Rightarrow>
             if failbit s' then (out, Inl WordTooLong, wheels)
             else
               (case ProcessDictionary_word wheels wheelCount line count out of
                  Inl e \<Rightarrow> (out, Inl e, wheels)
                | Inr (count', out', wheels') \<Rightarrow>
                    ProcessDictionary_loop wheels' wheelCount s' count' out'))
      else (out @ [PrintFound count], Inr count, wheels))"
  by pat_completeness auto
termination
  by (relation "measure (\<lambda>(wheels, wheelCount, s, count, out).
        if good s then Suc (length (buf s)) else 0)")
    (auto dest: getline_progress)

declare ProcessDictionary_loop.simps [simp del]

text \<open>
  \<^verbatim>\<open>int ProcessDictionary(bool**& wheels, const uint wheelCount, const uint lettersPerWheel)\<close>
  on the contents of \<^verbatim>\<open>dictionary.txt\<close>: the output, the total it reports or
  the exception it throws, and the wheel store.
\<close>

definition ProcessDictionary ::
  "wheels \<Rightarrow> uint \<Rightarrow> uint \<Rightarrow> string option \<Rightarrow> out_line list \<times> (error + uint) \<times> wheels" where
  "ProcessDictionary wheels wheelCount lettersPerWheel file =
     (let s = open_file file in
      if \<not> good s then ([], Inl DictionaryUnavailable, wheels)
      else ProcessDictionary_loop wheels wheelCount s 0 [])"

text \<open>
  \<^verbatim>\<open>main\<close>: an exception is caught and its message printed, then the exit prompt.
  After an access out of bounds nothing is known of the run.
\<close>

definition main :: "string option \<Rightarrow> string option \<Rightarrow> out_line list" where
  "main wheelFile dictionaryFile =
     (case ReadWheelFile wheelFile 0 0 of
        Inl e \<Rightarrow> (if e = OutOfBounds then [Undefined] else [PrintError e, PrintExit])
      | Inr lk \<Rightarrow>
          (case ProcessDictionary (lock_wheels lk) (lock_wheelCount lk) (lock_lettersPerWheel lk)
                  dictionaryFile of
             (out, Inl e, wheels') \<Rightarrow>
               (if e = OutOfBounds then out @ [Undefined] else out @ [PrintError e, PrintExit])
           | (out, Inr count, wheels') \<Rightarrow> out @ [PrintExit]))"

section \<open>Reference notions for the claims\<close>

text \<open>
  A dictionary given as its words, one to a line, with no line end after the last: the
  contents of \<^verbatim>\<open>dictionary.txt\<close>.
\<close>

fun join_lines :: "string list \<Rightarrow> string" where
  "join_lines [] = []"
| "join_lines [w] = w"
| "join_lines (w # v # ws) = w @ NL # join_lines (v # ws)"

text \<open>
  The number of alignments of a dictionary word: the matching offsets of its lower-case
  form when it is alphabetic and no longer than the lock, none otherwise.
\<close>

definition word_matches :: "wheels \<Rightarrow> string \<Rightarrow> nat" where
  "word_matches wheels w =
     (if list_all isalpha_c w \<and> length w \<le> length wheels
      then length (match_offsets wheels (map tolower_c w)) else 0)"

text \<open>The words a run prints, and the sum of their alignment counts.\<close>

definition printed :: "wheels \<Rightarrow> string list \<Rightarrow> out_line list" where
  "printed wheels ws =
     map (\<lambda>w. PrintWord (map tolower_c w)) (filter (\<lambda>w. 0 < word_matches wheels w) ws)"

definition total_matches :: "wheels \<Rightarrow> string list \<Rightarrow> nat" where
  "total_matches wheels ws =
     sum_list (map (word_matches wheels) (filter (\<lambda>w. 0 < word_matches wheels w) ws))"

text \<open>
  Setting the flag of a letter on a wheel, and the wheels after the lines \<open>ls\<close> have been
  read into the wheels \<open>i, i + 1, \<dots>\<close>
\<close>

definition set_letter :: "char \<Rightarrow> bool list \<Rightarrow> bool list" where
  "set_letter c w = w[nat (alphabetindex (tolower_c c)) := True]"

primrec fill_wheels :: "string list \<Rightarrow> nat \<Rightarrow> wheels \<Rightarrow> wheels" where
  "fill_wheels [] i ws = ws"
| "fill_wheels (l # ls) i ws = fill_wheels ls (Suc i) (ws[i := fold set_letter l (ws ! i)])"

text \<open>Lines of a file, each ended by a line end.\<close>

definition lines_text :: "string list \<Rightarrow> string" where
  "lines_text ls = concat (map (\<lambda>l. l @ [NL]) ls)"

text \<open>
  A count of \<^verbatim>\<open>wheels.txt\<close>: decimal digits of a positive value below a bound. The
  text of \<^verbatim>\<open>wheels.txt\<close> up to some line: the two counts, white space between
  them, a line end, and the complete lines \<open>full\<close> of fewer wheels than the count says,
  each of the declared number of letters. A run aborts with an error when
  \<^verbatim>\<open>ReadWheelFile\<close>, called as \<^verbatim>\<open>main\<close> calls it, throws it, so that
  \<^verbatim>\<open>main\<close> prints the message and the exit prompt and nothing else.
\<close>

definition count_field :: "string \<Rightarrow> int \<Rightarrow> bool" where
  "count_field ds bound = (ds \<noteq> [] \<and> list_all isdigit_c ds \<and> 0 < decimal ds \<and> decimal ds < bound)"

definition wheel_text :: "string \<Rightarrow> string \<Rightarrow> string \<Rightarrow> string list \<Rightarrow> string \<Rightarrow> string" where
  "wheel_text ds1 sep ds2 full tail = ds1 @ sep @ ds2 @ NL # lines_text full @ tail"

definition wheel_prefix_ok :: "string \<Rightarrow> string \<Rightarrow> string \<Rightarrow> string list \<Rightarrow> bool" where
  "wheel_prefix_ok ds1 sep ds2 full =
     (count_field ds1 (2 ^ 32) \<and> sep \<noteq> [] \<and> list_all isspace_c sep
      \<and> count_field ds2 (2 ^ 32 - 1)
      \<and> length full < nat (decimal ds1)
      \<and> list_all (\<lambda>l. length l = nat (decimal ds2) \<and> list_all isalpha_c l) full)"

definition aborts_with :: "string \<Rightarrow> error \<Rightarrow> bool" where
  "aborts_with content e =
     (ReadWheelFile (Some content) 0 0 = Inl e
      \<and> (\<forall>dictionaryFile. main (Some content) dictionaryFile = [PrintError e, PrintExit]))"

section \<open>The matcher: helper lemmas\<close>

lemma alphabetindex_lower:
  "lower_letter c \<Longrightarrow> 0 \<le> alphabetindex c \<and> alphabetindex c < 26"
  by (simp add: lower_letter_def alphabetindex_def char_int_def)

text \<open>No loop of the matcher changes the wheel store, whatever its arguments.\<close>

lemma TestWord_inner_frame: "snd (TestWord_inner wheels word wordLength i j) = wheels"
proof (induction wheels word wordLength i j rule: TestWord_inner.induct)
  case (1 wheels word wordLength i j)
  then show ?case
    by (subst TestWord_inner.simps) (auto split: sum.splits)
qed

lemma TestWord_outer_frame: "snd (TestWord_outer wheels word wordLength space i count) = wheels"
proof (induction wheels word wordLength space i count rule: TestWord_outer.induct)
  case (1 wheels word wordLength space i count)
  show ?case
  proof (cases "i \<le> space")
    case False
    then show ?thesis by (subst TestWord_outer.simps) simp
  next
    case True
    obtain r where r: "TestWord_inner wheels word wordLength i 0 = (r, wheels)"
      using TestWord_inner_frame [of wheels word wordLength i 0] by (cases "TestWord_inner wheels word wordLength i 0") simp
    show ?thesis
    proof (cases r)
      case (Inl e)
      with True r show ?thesis by (subst TestWord_outer.simps) simp
    next
      case (Inr m)
      with True r "1.IH" show ?thesis
        by (subst TestWord_outer.simps) simp
    qed
  qed
qed

lemma TestWord_frame: "snd (TestWord wheels word wordLength wheelCount) = wheels"
  using TestWord_outer_frame [of wheels word "unat wordLength" "unat (wheelCount - wordLength)" 0 0]
  by (auto simp: TestWord_def Let_def split: prod.splits sum.splits)

text \<open>
  On a well-formed lock, with a word of lower-case letters that fits, the loops meet no
  error and count the offsets that match.
\<close>

lemma TestWord_inner_ok:
  assumes "list_all (\<lambda>w. length w = ALPHABETLENGTH) wheels"
    and "list_all lower_letter word"
    and "i + length word \<le> length wheels"
  shows "TestWord_inner wheels word (length word) i j =
           (Inr (list_all (\<lambda>k. wheels ! (i + k) ! nat (alphabetindex (word ! k))) [j..<length word]), wheels)"
  using assms
proof (induction "length word - j" arbitrary: j)
  case 0
  then show ?case by (subst TestWord_inner.simps) simp
next
  case (Suc n)
  then have j: "j < length word" by simp
  with Suc.prems have ll: "lower_letter (word ! j)" by (simp add: list_all_length)
  have wl: "length (wheels ! (i + j)) = 26" using j Suc.prems by (simp add: list_all_length ALPHABETLENGTH_def)
  have rd: "wheel_read wheels (i + j) (alphabetindex (word ! j)) = Inr (wheels ! (i + j) ! nat (alphabetindex (word ! j)))"
    using alphabetindex_lower [OF ll] wl j Suc.prems(3) by (auto simp: wheel_read_def)
  have step: "[j..<length word] = j # [Suc j..<length word]" using j by (simp add: upt_conv_Cons)
  have IH: "TestWord_inner wheels word (length word) i (Suc j) =
           (Inr (list_all (\<lambda>k. wheels ! (i + k) ! nat (alphabetindex (word ! k))) [Suc j..<length word]), wheels)"
    using Suc.hyps(1) [of "Suc j"] Suc.hyps(2) Suc.prems by simp
  show ?case
    by (subst TestWord_inner.simps) (simp add: j word_read_def rd step IH)
qed


lemma TestWord_outer_ok:
  assumes "list_all (\<lambda>w. length w = ALPHABETLENGTH) wheels"
    and "list_all lower_letter word"
    and "space + length word \<le> length wheels"
    and "i \<le> Suc space"
  shows "TestWord_outer wheels word (length word) space i count =
           (Inr (count + of_nat (length (filter (matches_at wheels word) [i..<Suc space]))), wheels)"
  using assms(4)
proof (induction "Suc space - i" arbitrary: i count)
  case 0
  then have "\<not> i \<le> space" by simp
  then show ?case by (subst TestWord_outer.simps) simp
next
  case (Suc n)
  then have i: "i \<le> space" by simp
  then have bound: "i + length word \<le> length wheels" using assms(3) by simp
  have inner: "TestWord_inner wheels word (length word) i 0 = (Inr (matches_at wheels word i), wheels)"
    using TestWord_inner_ok [OF assms(1,2) bound, of 0] by (simp add: matches_at_def)
  have step: "[i..<Suc space] = i # [Suc i..<Suc space]" using i by (simp add: upt_conv_Cons)
  have IH: "TestWord_outer wheels word (length word) space (Suc i) c =
           (Inr (c + of_nat (length (filter (matches_at wheels word) [Suc i..<Suc space]))), wheels)" for c
    using Suc.hyps(1) [of "Suc i" c] Suc.hyps(2) i by simp
  show ?case
    by (subst TestWord_outer.simps) (simp add: i inner step IH del: upt_Suc)
qed

lemma TestWord_ok:
  assumes "lock_ok wheels wheelCount"
    and "list_all lower_letter word"
    and "length word = unat wordLength"
    and "wordLength \<le> wheelCount"
  shows "TestWord wheels word wordLength wheelCount =
           (Inr (sint (of_nat (length (match_offsets wheels word)) :: uint)), wheels)"
proof -
  have sp: "unat (wheelCount - wordLength) = length wheels - length word"
    using assms(1,3,4) by (simp add: lock_ok_def unat_sub)
  have le: "length word \<le> length wheels"
    using assms(1,3,4) by (simp add: lock_ok_def word_le_nat_alt)
  have "TestWord_outer wheels word (length word) (length wheels - length word) 0 0 =
          (Inr (0 + of_nat (length (filter (matches_at wheels word) [0..<Suc (length wheels - length word)]))), wheels)"
    using assms(1,2) le by (intro TestWord_outer_ok) (simp_all add: lock_ok_def)
  then show ?thesis
    using assms(3) by (simp add: TestWord_def sp match_offsets_def del: upt_Suc)
qed

lemma match_offsets_le: "length (match_offsets wheels word) \<le> Suc (length wheels - length word)"
  unfolding match_offsets_def by (rule order_trans [OF length_filter_le]) simp


lemma matches_at_iff:
  "matches_at wheels word s = (\<forall>j<length word. wheels ! (s + j) ! nat (alphabetindex (word ! j)))"
  by (auto simp: matches_at_def list_all_iff)

lemma match_offsets_card:
  "length (match_offsets wheels word) =
     card {s. s \<le> length wheels - length word \<and>
              (\<forall>j<length word. wheels ! (s + j) ! nat (alphabetindex (word ! j)))}"
proof -
  have "{i. i < length [0..<Suc (length wheels - length word)] \<and>
            matches_at wheels word ([0..<Suc (length wheels - length word)] ! i)} =
        {s. s \<le> length wheels - length word \<and> matches_at wheels word s}"
    by (auto simp del: upt_Suc simp: less_Suc_eq_le)
  then show ?thesis
    unfolding match_offsets_def length_filter_conv_card
    by (simp only: matches_at_iff)
qed

lemma sint_of_nat_small:
  assumes "n < 2 ^ 31"
  shows "sint (of_nat n :: uint) = int n"
proof -
  have "int n < 2 ^ 31" using assms by simp
  then have "signed_take_bit 31 (int n) = int n"
    by (intro signed_take_bit_int_eq_self) simp_all
  then show ?thesis by (simp add: signed_of_nat)
qed

section \<open>The matcher: claims\<close>

text \<open>
  C1. For every lock of \<open>W\<close> wheels and every lower-case alphabetic word of length \<open>L\<close>
  with \<open>0 < L \<le> W\<close>, \<^verbatim>\<open>TestWord\<close> returns exactly the number of starting offsets
  \<open>s\<close> in \<open>0 .. W - L\<close> such that wheel \<open>s + j\<close> holds the \<open>j\<close>-th letter for every
  \<open>j < L\<close>: all matching offsets are counted. The count is a \<^verbatim>\<open>uint\<close> returned as
  an \<^verbatim>\<open>int\<close> and stored in a \<^verbatim>\<open>uint\<close> by the caller: read as a \<^verbatim>\<open>uint\<close>
  the returned value is the number of offsets for every lock, and the \<^verbatim>\<open>int\<close>
  itself is that number for every lock of fewer than \<open>2 ^ 31\<close> wheels.
\<close>

theorem TestWord_counts_all_offsets:
  assumes "lock_ok wheels wheelCount"
    and "list_all lower_letter word"
    and "length word = unat wordLength"
    and "0 < wordLength"
    and "wordLength \<le> wheelCount"
  defines "n \<equiv> card {s. s \<le> unat wheelCount - unat wordLength \<and>
                       (\<forall>j<unat wordLength. wheels ! (s + j) ! nat (alphabetindex (word ! j)))}"
  shows "\<exists>r. fst (TestWord wheels word wordLength wheelCount) = Inr r
           \<and> unat (word_of_int r :: uint) = n
           \<and> (unat wheelCount < 2 ^ 31 \<longrightarrow> r = int n)"
proof -
  have len: "length wheels = unat wheelCount" using assms(1) by (simp add: lock_ok_def)
  have n: "n = length (match_offsets wheels word)"
    by (simp add: n_def match_offsets_card len assms(3))
  have pos: "0 < length word" using assms(3,4) by (simp add: word_greater_zero_iff unat_gt_0)
  have "n \<le> Suc (length wheels - length word)" unfolding n by (rule match_offsets_le)
  moreover have "length word \<le> unat wheelCount"
    using assms(3,5) by (simp add: word_le_nat_alt)
  ultimately have le: "n \<le> unat wheelCount" using pos len by arith
  have lt: "n < 2 ^ 32" using le unsigned_less [of wheelCount, where ?'a = nat] by simp
  have r: "fst (TestWord wheels word wordLength wheelCount) = Inr (sint (of_nat n :: uint))"
    using TestWord_ok [OF assms(1,2,3,5)] by (simp add: n)
  have u: "unat (word_of_int (sint (of_nat n :: uint)) :: uint) = n"
    using lt by (simp add: unat_of_nat)
  have s: "unat wheelCount < 2 ^ 31 \<Longrightarrow> sint (of_nat n :: uint) = int n"
    using le by (intro sint_of_nat_small) simp
  from r u s show ?thesis by blast
qed

theorem TestWord_counts_all_offsets_witness:
  "fst (TestWord (replicate 3 (True # True # replicate 24 False)) ''ab'' 2 3) = Inr 2"
proof -
  let ?wheels = "replicate 3 (True # True # replicate 24 False)"
  have m: "length (match_offsets ?wheels ''ab'') = 2"
    by (simp add: match_offsets_def matches_at_def alphabetindex_def char_int_def upt_rec)
  have l: "length ?wheels = 3" "length ''ab'' = 2" by simp_all
  have c: "card {s. s \<le> 3 - 2 \<and> (\<forall>j<2. ?wheels ! (s + j) ! nat (alphabetindex (''ab'' ! j)))} = 2"
    using match_offsets_card [of ?wheels "''ab''", unfolded l] m by simp
  have "\<exists>r. fst (TestWord ?wheels ''ab'' 2 3) = Inr r
           \<and> unat (word_of_int r :: uint) =
               card {s. s \<le> unat (3 :: uint) - unat (2 :: uint) \<and>
                       (\<forall>j<unat (2 :: uint). ?wheels ! (s + j) ! nat (alphabetindex (''ab'' ! j)))}
           \<and> (unat (3 :: uint) < 2 ^ 31 \<longrightarrow> r =
               int (card {s. s \<le> unat (3 :: uint) - unat (2 :: uint) \<and>
                       (\<forall>j<unat (2 :: uint). ?wheels ! (s + j) ! nat (alphabetindex (''ab'' ! j)))}))"
    by (rule TestWord_counts_all_offsets)
      (simp_all add: lock_ok_def ALPHABETLENGTH_def lower_letter_def list_all_iff)
  then show ?thesis using c by auto
qed

text \<open>
  C5. For every lock and every word whose length equals the wheel count, \<^verbatim>\<open>space\<close>
  is 0, so offset 0 is the only one tested, and the match count is 1 when the word
  matches there and 0 otherwise.
\<close>

theorem TestWord_full_length_single_offset:
  assumes "lock_ok wheels wheelCount"
    and "list_all lower_letter word"
    and "length word = unat wordLength"
    and "wordLength = wheelCount"
  shows "wheelCount - wordLength = 0
           \<and> fst (TestWord wheels word wordLength wheelCount) =
               Inr (if matches_at wheels word 0 then 1 else 0)"
proof -
  have len: "length wheels = length word" using assms(1,3,4) by (simp add: lock_ok_def)
  have "match_offsets wheels word = (if matches_at wheels word 0 then [0] else [])"
    by (simp add: match_offsets_def len)
  then have "sint (of_nat (length (match_offsets wheels word)) :: uint) =
               (if matches_at wheels word 0 then 1 else 0)"
    by simp
  then show ?thesis
    using TestWord_ok [OF assms(1,2,3)] assms(4) by simp
qed

theorem TestWord_full_length_single_offset_witness:
  "(2 :: uint) - 2 = 0
     \<and> fst (TestWord [True # True # replicate 24 False, True # False # replicate 24 False] ''ab'' 2 2) = Inr 0
     \<and> fst (TestWord [True # True # replicate 24 False, True # False # replicate 24 False] ''ab'' 2 2) \<in> {Inr 0, Inr 1}"
  using TestWord_full_length_single_offset
    [of "[True # True # replicate 24 False, True # False # replicate 24 False]" 2 "''ab''" 2]
  by (simp add: lock_ok_def ALPHABETLENGTH_def lower_letter_def matches_at_def
      alphabetindex_def char_int_def upt_rec)

text \<open>
  C7. \<^verbatim>\<open>TestWord\<close> mutates nothing: a call returns the wheel store it was given,
  the store is the same after any sequence of calls (of any words and lengths), and a
  call made after such a sequence returns what the same call returns before it.
\<close>

theorem TestWord_pure:
  "snd (TestWord wheels word wordLength wheelCount) = wheels
     \<and> fold (\<lambda>(w, l, c) ws. snd (TestWord ws w l c)) calls wheels = wheels
     \<and> fst (TestWord (fold (\<lambda>(w, l, c) ws. snd (TestWord ws w l c)) calls wheels)
              word wordLength wheelCount) =
        fst (TestWord wheels word wordLength wheelCount)"
proof -
  have "fold (\<lambda>(w, l, c) ws. snd (TestWord ws w l c)) calls wheels = wheels"
    by (induction calls) (auto simp: TestWord_frame)
  then show ?thesis by (simp add: TestWord_frame)
qed

text \<open>
  C10. For every lock of \<open>W\<close> wheels and every lower-case alphabetic word of length
  \<open>L \<le> W\<close>, each lookup \<^verbatim>\<open>wheels[i + j][alphabetindex(word[j])]\<close> that the loops of
  \<^verbatim>\<open>TestWord\<close> can make is in bounds: \<open>i + j < W\<close>, the letter index lies in
  \<open>0 .. 25\<close>, both reads succeed, and \<^verbatim>\<open>TestWord\<close> returns a count, not the
  out-of-bounds error.
\<close>

theorem TestWord_lookups_in_bounds:
  assumes "lock_ok wheels wheelCount"
    and "list_all lower_letter word"
    and "length word = unat wordLength"
    and "wordLength \<le> wheelCount"
  shows "(\<forall>i \<le> unat (wheelCount - wordLength). \<forall>j < unat wordLength.
            i + j < unat wheelCount
            \<and> 0 \<le> alphabetindex (word ! j) \<and> alphabetindex (word ! j) < int ALPHABETLENGTH
            \<and> word_read word j = Inr (word ! j)
            \<and> wheel_read wheels (i + j) (alphabetindex (word ! j)) =
                Inr (wheels ! (i + j) ! nat (alphabetindex (word ! j))))
         \<and> (\<exists>r. fst (TestWord wheels word wordLength wheelCount) = Inr r)"
proof (intro conjI allI impI)
  show "\<exists>r. fst (TestWord wheels word wordLength wheelCount) = Inr r"
    using TestWord_ok [OF assms] by simp
next
  fix i j
  assume i: "i \<le> unat (wheelCount - wordLength)" and j: "j < unat wordLength"
  have sp: "unat (wheelCount - wordLength) = unat wheelCount - unat wordLength"
    using assms(4) by (simp add: unat_sub)
  have le: "unat wordLength \<le> unat wheelCount" using assms(4) by (simp add: word_le_nat_alt)
  show ij: "i + j < unat wheelCount" using i j sp le by arith
  have ll: "lower_letter (word ! j)" using assms(2,3) j by (simp add: list_all_length)
  show lo: "0 \<le> alphabetindex (word ! j)" and hi: "alphabetindex (word ! j) < int ALPHABETLENGTH"
    using alphabetindex_lower [OF ll] by (simp_all add: ALPHABETLENGTH_def)
  show "word_read word j = Inr (word ! j)" using j assms(3) by (simp add: word_read_def)
  have "length (wheels ! (i + j)) = ALPHABETLENGTH"
    using assms(1) ij by (simp add: lock_ok_def list_all_length)
  then show "wheel_read wheels (i + j) (alphabetindex (word ! j)) =
                Inr (wheels ! (i + j) ! nat (alphabetindex (word ! j)))"
    using assms(1) ij lo hi by (auto simp: wheel_read_def lock_ok_def)
qed

theorem TestWord_lookups_in_bounds_witness:
  "1 + 1 < unat (3 :: uint)
     \<and> alphabetindex (''zb'' ! 1) = 1
     \<and> wheel_read (replicate 3 (True # True # replicate 24 False)) (1 + 1)
           (alphabetindex (''zb'' ! 1)) = Inr True
     \<and> (\<exists>r. fst (TestWord (replicate 3 (True # True # replicate 24 False)) ''zb'' 2 3) = Inr r)"
proof -
  have all: "(\<forall>i \<le> unat ((3 :: uint) - 2). \<forall>j < unat (2 :: uint).
            i + j < unat (3 :: uint)
            \<and> 0 \<le> alphabetindex (''zb'' ! j) \<and> alphabetindex (''zb'' ! j) < int ALPHABETLENGTH
            \<and> word_read ''zb'' j = Inr (''zb'' ! j)
            \<and> wheel_read (replicate 3 (True # True # replicate 24 False)) (i + j)
                  (alphabetindex (''zb'' ! j)) =
                Inr (replicate 3 (True # True # replicate 24 False) ! (i + j)
                       ! nat (alphabetindex (''zb'' ! j))))
         \<and> (\<exists>r. fst (TestWord (replicate 3 (True # True # replicate 24 False)) ''zb'' 2 3) = Inr r)"
    by (rule TestWord_lookups_in_bounds)
      (simp_all add: lock_ok_def ALPHABETLENGTH_def lower_letter_def list_all_iff)
  have "wheel_read (replicate 3 (True # True # replicate 24 False)) (1 + 1)
                  (alphabetindex (''zb'' ! 1)) =
                Inr (replicate 3 (True # True # replicate 24 False) ! (1 + 1)
                       ! nat (alphabetindex (''zb'' ! 1)))"
    using all [THEN conjunct1, rule_format, of 1 1] by simp
  moreover have "\<exists>r. fst (TestWord (replicate 3 (True # True # replicate 24 False)) ''zb'' 2 3) = Inr r"
    using all by (rule conjunct2)
  ultimately show ?thesis
    by (simp add: alphabetindex_def char_int_def)
qed

section \<open>The dictionary loop: helper lemmas\<close>

text \<open>Upper-casing a line changes neither where it ends, nor its validity, nor its lower-case form.\<close>

lemma of_char_toupper_c:
  "(of_char (toupper_c c) :: nat) =
     (if 97 \<le> (of_char c :: nat) \<and> (of_char c :: nat) \<le> 122 then of_char c - 32 else of_char c)"
  by (auto simp: toupper_c_def)

lemma of_char_tolower_c:
  "(of_char (tolower_c c) :: nat) =
     (if 65 \<le> (of_char c :: nat) \<and> (of_char c :: nat) \<le> 90 then of_char c + 32 else of_char c)"
  by (auto simp: tolower_c_def)

lemma toupper_c_NUL: "(toupper_c c = NUL) = (c = NUL)"
proof -
  have "(toupper_c c = NUL) = ((of_char (toupper_c c) :: nat) = of_char NUL)"
    by (simp only: of_char_eq_iff)
  also have "\<dots> = ((of_char c :: nat) = of_char NUL)"
    by (auto simp: of_char_toupper_c NUL_def)
  finally show ?thesis by (simp only: of_char_eq_iff)
qed

lemma isalpha_c_toupper_c: "isalpha_c (toupper_c c) = isalpha_c c"
  unfolding isalpha_c_def of_char_toupper_c by auto

lemma tolower_c_toupper_c: "tolower_c (toupper_c c) = tolower_c c"
proof -
  have "(of_char (tolower_c (toupper_c c)) :: nat) = of_char (tolower_c c)"
    unfolding of_char_tolower_c of_char_toupper_c by auto
  then show ?thesis by (simp only: of_char_eq_iff)
qed

lemma takeWhile_uppercase:
  "takeWhile (\<lambda>c. c \<noteq> NUL) (uppercase line) = uppercase (takeWhile (\<lambda>c. c \<noteq> NUL) line)"
  by (simp add: uppercase_def takeWhile_map comp_def toupper_c_NUL)

lemma uppercase_facts:
  "length (uppercase w) = length w"
  "list_all isalpha_c (uppercase w) = list_all isalpha_c w"
  "map tolower_c (uppercase w) = map tolower_c w"
  by (simp_all add: uppercase_def list_all_iff isalpha_c_toupper_c tolower_c_toupper_c)

text \<open>
  With more letters than wheels the matcher reads past the last wheel, whatever the
  letters are.
\<close>

lemma TestWord_inner_past_end:
  assumes "length wheels \<le> i" and "0 < wordLength" and "word \<noteq> []"
  shows "TestWord_inner wheels word wordLength i 0 = (Inl OutOfBounds, wheels)"
  using assms by (subst TestWord_inner.simps) (simp add: word_read_def wheel_read_def)

lemma TestWord_inner_error:
  "fst (TestWord_inner wheels word wordLength i j) = Inl e \<Longrightarrow> e = OutOfBounds"
proof (induction wheels word wordLength i j rule: TestWord_inner.induct)
  case (1 wheels word wordLength i j)
  from "1.prems" show ?case
    by (subst (asm) TestWord_inner.simps)
      (auto simp: word_read_def wheel_read_def split: if_splits sum.splits intro: "1.IH")
qed

lemma TestWord_outer_past_end:
  assumes "length wheels \<le> space" and "0 < wordLength" and "word \<noteq> []"
    and "i \<le> length wheels"
  shows "TestWord_outer wheels word wordLength space i count = (Inl OutOfBounds, wheels)"
  using assms(4)
proof (induction "length wheels - i" arbitrary: i count)
  case 0
  then have "length wheels \<le> i" and "i \<le> space" using assms(1) by simp_all
  then show ?case
    using TestWord_inner_past_end [OF _ assms(2,3), of wheels i]
    by (subst TestWord_outer.simps) simp
next
  case (Suc n)
  then have i: "i \<le> space" and i': "Suc i \<le> length wheels" using assms(1) by simp_all
  obtain r where r: "TestWord_inner wheels word wordLength i 0 = (r, wheels)"
    using TestWord_inner_frame [of wheels word wordLength i 0]
    by (cases "TestWord_inner wheels word wordLength i 0") simp
  show ?case
  proof (cases r)
    case (Inl e)
    with r have "e = OutOfBounds" using TestWord_inner_error [of wheels word wordLength i 0 e] by simp
    with Inl r i show ?thesis by (subst TestWord_outer.simps) simp
  next
    case (Inr m)
    have "TestWord_outer wheels word wordLength space (Suc i) c = (Inl OutOfBounds, wheels)" for c
      using Suc.hyps(1) [of "Suc i" c] Suc.hyps(2) i' by simp
    with Inr r i show ?thesis by (subst TestWord_outer.simps) simp
  qed
qed

lemma TestWord_too_long:
  assumes "length wheels = unat wheelCount" and "wheelCount < wordLength" and "word \<noteq> []"
  shows "TestWord wheels word wordLength wheelCount = (Inl OutOfBounds, wheels)"
proof -
  have lt: "unat wheelCount < unat wordLength" using assms(2) by (simp add: word_less_nat_alt)
  have "unat wordLength < 2 ^ 32" using unsigned_less [of wordLength, where ?'a = nat] by simp
  then have "length wheels \<le> unat (wheelCount - wordLength)"
    using lt assms(1) by (simp add: unat_sub_if_size word_size)
  moreover have "0 < unat wordLength" using lt by simp
  ultimately have "TestWord_outer wheels word (unat wordLength) (unat (wheelCount - wordLength)) 0 0 =
      (Inl OutOfBounds, wheels)"
    using assms(3) by (intro TestWord_outer_past_end) simp_all
  then show ?thesis by (simp add: TestWord_def)
qed

text \<open>One line of the dictionary, and the whole loop on a dictionary of well-formed words.\<close>

lemma getline_scan_line:
  "NL \<notin> set w \<Longrightarrow> length w \<le> k \<Longrightarrow> getline_scan (w @ NL # rest) k = (w, rest, False, False)"
  by (induction w arbitrary: k) auto

lemma getline_scan_last:
  "NL \<notin> set w \<Longrightarrow> length w \<le> k \<Longrightarrow> getline_scan w k = (w, [], True, False)"
  by (induction w arbitrary: k) auto

lemma lower_letter_tolower_c: "isalpha_c c \<Longrightarrow> lower_letter (tolower_c c)"
  unfolding lower_letter_def isalpha_c_def of_char_tolower_c by auto

lemma ProcessDictionary_word_ok:
  assumes "lock_ok wheels wheelCount"
    and "NUL \<notin> set w" and "w \<noteq> []" and "length w \<le> MAXWORDLENGTH"
  shows "ProcessDictionary_word wheels wheelCount w count out =
           Inr (count + of_nat (word_matches wheels w),
                out @ (if 0 < word_matches wheels w then [PrintWord (map tolower_c w)] else []),
                wheels)"
proof -
  have tw: "takeWhile (\<lambda>c. c \<noteq> NUL) w = w" using assms(2) by (auto simp: takeWhile_eq_all_conv)
  have len: "length wheels = unat wheelCount" using assms(1) by (simp add: lock_ok_def)
  have ul: "unat (of_nat (length w) :: uint) = length w"
    using assms(4) by (simp add: unat_of_nat MAXWORDLENGTH_def)
  have cmp: "(wheelCount < (of_nat (length w) :: uint)) = (\<not> length w \<le> length wheels)"
    using ul len by (auto simp: word_less_nat_alt)
  show ?thesis
  proof (cases "list_all isalpha_c w \<and> length w \<le> length wheels")
    case False
    then show ?thesis
      by (auto simp: ProcessDictionary_word_def Let_def tw cmp word_matches_def)
  next
    case True
    let ?lw = "map tolower_c w"
    let ?n = "length (match_offsets wheels ?lw)"
    have low: "list_all lower_letter ?lw"
      using True by (auto simp: list_all_iff lower_letter_tolower_c)
    have le: "(of_nat (length w) :: uint) \<le> wheelCount"
      using True ul len by (simp add: word_le_nat_alt)
    have tw': "TestWord wheels ?lw (of_nat (length w)) wheelCount =
                 (Inr (sint (of_nat ?n :: uint)), wheels)"
      using ul by (intro TestWord_ok [OF assms(1) low _ le]) simp
    have "?n \<le> Suc (length wheels - length ?lw)" by (rule match_offsets_le)
    then have "?n \<le> unat wheelCount" using assms(3) True len by (cases w) auto
    then have "unat (of_nat ?n :: uint) = ?n" by (rule le_unat_uoi)
    then have pos: "(0 < (of_nat ?n :: uint)) = (0 < ?n)"
      by (simp add: word_less_nat_alt)
    from True show ?thesis
      by (simp add: ProcessDictionary_word_def Let_def tw cmp word_matches_def tw' pos)
  qed
qed


lemma total_matches_Cons:
  "total_matches wheels (w # ws) = word_matches wheels w + total_matches wheels ws"
  by (simp add: total_matches_def)

lemma printed_Cons:
  "printed wheels (w # ws) =
     (if 0 < word_matches wheels w then [PrintWord (map tolower_c w)] else []) @ printed wheels ws"
  by (simp add: printed_def)

lemma ProcessDictionary_loop_lines:
  assumes "lock_ok wheels wheelCount"
    and "ws \<noteq> []"
    and "\<forall>w\<in>set ws. w \<noteq> [] \<and> length w \<le> MAXWORDLENGTH \<and> NL \<notin> set w \<and> NUL \<notin> set w"
  shows "ProcessDictionary_loop wheels wheelCount
           \<lparr>buf = join_lines ws, eofbit = False, failbit = False\<rparr> count out =
         (out @ printed wheels ws @ [PrintFound (count + of_nat (total_matches wheels ws))],
          Inr (count + of_nat (total_matches wheels ws)), wheels)"
  using assms(2,3)
proof (induction ws arbitrary: count out rule: join_lines.induct)
  case 1
  then show ?case by simp
next
  case (2 w)
  then have w: "w \<noteq> []" "length w \<le> MAXWORDLENGTH" "NL \<notin> set w" "NUL \<notin> set w" by simp_all
  have gl: "getline \<lparr>buf = w, eofbit = False, failbit = False\<rparr> (Suc MAXWORDLENGTH) =
              (w, \<lparr>buf = [], eofbit = True, failbit = False\<rparr>)"
    using w by (simp add: getline_def good_def getline_scan_last)
  have stop: "ProcessDictionary_loop wheels wheelCount \<lparr>buf = [], eofbit = True, failbit = False\<rparr> c p =
                (p @ [PrintFound c], Inr c, wheels)" for c p
    by (subst ProcessDictionary_loop.simps) simp
  show ?case
    by (subst ProcessDictionary_loop.simps)
      (simp add: good_def gl ProcessDictionary_word_ok [OF assms(1) w(4,1,2)] stop
        total_matches_Cons printed_Cons total_matches_def [of wheels "[]"] printed_def [of wheels "[]"])
next
  case (3 w v ws)
  then have w: "w \<noteq> []" "length w \<le> MAXWORDLENGTH" "NL \<notin> set w" "NUL \<notin> set w" by simp_all
  have gl: "getline \<lparr>buf = w @ NL # join_lines (v # ws), eofbit = False, failbit = False\<rparr>
              (Suc MAXWORDLENGTH) =
              (w, \<lparr>buf = join_lines (v # ws), eofbit = False, failbit = False\<rparr>)"
    using w by (simp add: getline_def good_def getline_scan_line)
  have IH: "ProcessDictionary_loop wheels wheelCount
           \<lparr>buf = join_lines (v # ws), eofbit = False, failbit = False\<rparr> c p =
         (p @ printed wheels (v # ws) @ [PrintFound (c + of_nat (total_matches wheels (v # ws)))],
          Inr (c + of_nat (total_matches wheels (v # ws))), wheels)" for c p
    using "3.IH" [of c p] "3.prems" by simp
  show ?case
    by (subst ProcessDictionary_loop.simps)
      (simp add: good_def gl ProcessDictionary_word_ok [OF assms(1) w(4,1,2)] IH
        total_matches_Cons [of wheels w] printed_Cons [of wheels w] add.assoc)
qed

text \<open>
  An empty line: no letter is looked up, so every offset counts, on any wheels, and the
  body prints the empty word and adds \<open>wheelCount + 1\<close> to the total.
\<close>

lemma TestWord_outer_empty:
  assumes "i \<le> Suc space"
  shows "TestWord_outer wheels word 0 space i count =
           (Inr (count + of_nat (Suc space - i)), wheels)"
  using assms
proof (induction "Suc space - i" arbitrary: i count)
  case 0
  then have "\<not> i \<le> space" by simp
  then show ?case using 0 by (subst TestWord_outer.simps) simp
next
  case (Suc n)
  then have i: "i \<le> space" by simp
  have inner: "TestWord_inner wheels word 0 i 0 = (Inr True, wheels)"
    by (subst TestWord_inner.simps) simp
  have IH: "TestWord_outer wheels word 0 space (Suc i) c =
              (Inr (c + of_nat (Suc space - Suc i)), wheels)" for c
    using Suc.hyps(1) [of "Suc i" c] Suc.hyps(2) i by simp
  have "Suc space - i = Suc (space - i)" using i by simp
  then show ?case
    by (subst TestWord_outer.simps) (simp add: i inner IH)
qed

lemma ProcessDictionary_word_empty:
  assumes "wheelCount + 1 \<noteq> 0"
  shows "ProcessDictionary_word wheels wheelCount [] count out =
           Inr (count + (wheelCount + 1), out @ [PrintWord []], wheels)"
proof -
  have "TestWord_outer wheels [] 0 (unat wheelCount) 0 0 =
          (Inr (0 + of_nat (Suc (unat wheelCount) - 0)), wheels)"
    by (rule TestWord_outer_empty) simp
  then have "TestWord wheels [] 0 wheelCount = (Inr (sint (wheelCount + 1)), wheels)"
    by (simp add: TestWord_def add.commute)
  then show ?thesis
    using assms by (simp add: ProcessDictionary_word_def word_greater_zero_iff)
qed

section \<open>The dictionary loop: claims\<close>

text \<open>
  C6. Matching is case-insensitive: the loop body does for the upper-case form of a line
  exactly what it does for the line itself, since the word is lowered before the
  matcher sees it; so the match count, the printed word and the new total are the same
  for \<open>w\<close> and \<open>uppercase w\<close>.
\<close>

theorem ProcessDictionary_word_case_insensitive:
  "ProcessDictionary_word wheels wheelCount (uppercase line) count out =
     ProcessDictionary_word wheels wheelCount line count out"
  unfolding ProcessDictionary_word_def Let_def takeWhile_uppercase uppercase_facts ..


theorem ProcessDictionary_word_case_insensitive_witness:
  "ProcessDictionary_word (replicate 3 (True # True # replicate 24 False)) 3 ''AB'' 0 [] =
     ProcessDictionary_word (replicate 3 (True # True # replicate 24 False)) 3 ''ab'' 0 []"
proof -
  have "uppercase ''ab'' = ''AB''" by code_simp
  then show ?thesis
    using ProcessDictionary_word_case_insensitive
      [of "replicate 3 (True # True # replicate 24 False)" 3 "''ab''" 0 "[]"]
    by simp
qed

text \<open>
  C4. For every dictionary word longer than the lock has wheels, the loop body leaves the
  total, the output and the wheels as they were: the word contributes no match. The
  matcher is not called: on a lock of \<open>wheelCount\<close> wheels it would have read past the
  last wheel, and the body returns no such error.
\<close>

theorem ProcessDictionary_word_skips_long:
  assumes "unat wheelCount < length (takeWhile (\<lambda>c. c \<noteq> NUL) line)"
    and "length (takeWhile (\<lambda>c. c \<noteq> NUL) line) \<le> MAXWORDLENGTH"
  shows "ProcessDictionary_word wheels wheelCount line count out = Inr (count, out, wheels)
           \<and> (length wheels = unat wheelCount \<longrightarrow>
                fst (TestWord wheels (map tolower_c (takeWhile (\<lambda>c. c \<noteq> NUL) line))
                       (of_nat (length (takeWhile (\<lambda>c. c \<noteq> NUL) line))) wheelCount) =
                  Inl OutOfBounds)"
proof -
  let ?word = "takeWhile (\<lambda>c. c \<noteq> NUL) line"
  have "unat (of_nat (length ?word) :: uint) = length ?word"
    using assms(2) by (simp add: unat_of_nat MAXWORDLENGTH_def)
  with assms(1) have gt: "wheelCount < (of_nat (length ?word) :: uint)"
    by (simp add: word_less_nat_alt)
  have ne: "map tolower_c ?word \<noteq> []" using assms(1) by auto
  from gt show ?thesis
    using TestWord_too_long [OF _ gt ne, of wheels]
    by (simp add: ProcessDictionary_word_def Let_def)
qed

theorem ProcessDictionary_word_skips_long_witness:
  "ProcessDictionary_word [True # True # replicate 24 False] 1 ''ab'' 5 [PrintWord ''a''] =
     Inr (5, [PrintWord ''a''], [True # True # replicate 24 False])
   \<and> fst (TestWord [True # True # replicate 24 False] ''ab'' 2 1) = Inl OutOfBounds"
  using ProcessDictionary_word_skips_long
    [where wheelCount = 1 and line = "''ab''" and count = 5 and out = "[PrintWord ''a'']"
      and wheels = "[True # True # replicate 24 False]"]
  by (simp add: NUL_def MAXWORDLENGTH_def tolower_c_def)

text \<open>
  C3. After the whole dictionary is processed, the total reported is the sum of the
  alignment counts of the words with a positive count (a \<^verbatim>\<open>uint\<close>, so the sum
  modulo \<open>2 ^ 32\<close>), and exactly those words are printed, in order and in lower case.
  The dictionary is a non-empty list of words of 1 to 255 characters, one to a line.
  With three wheels of letters \<open>a, b\<close> and the dictionary \<open>ab, abc, ba\<close>, the words
  \<open>ab\<close> and \<open>ba\<close> are printed and the total is 4.
\<close>

theorem ProcessDictionary_total:
  assumes "lock_ok wheels wheelCount"
    and "ws \<noteq> []"
    and "\<forall>w\<in>set ws. w \<noteq> [] \<and> length w \<le> MAXWORDLENGTH \<and> NL \<notin> set w \<and> NUL \<notin> set w"
  shows "ProcessDictionary wheels wheelCount lettersPerWheel (Some (join_lines ws)) =
           (printed wheels ws @ [PrintFound (of_nat (total_matches wheels ws))],
            Inr (of_nat (total_matches wheels ws)), wheels)"
  using ProcessDictionary_loop_lines [OF assms, of 0 "[]"]
  by (simp add: ProcessDictionary_def open_file_def good_def)


theorem ProcessDictionary_total_witness:
  "ProcessDictionary (replicate 3 (True # True # replicate 24 False)) 3 2
     (Some (''ab'' @ [NL] @ ''abc'' @ [NL] @ ''ba'')) =
   ([PrintWord ''ab'', PrintWord ''ba'', PrintFound 4], Inr 4,
    replicate 3 (True # True # replicate 24 False))"
proof -
  let ?wheels = "replicate 3 (True # True # replicate 24 False)"
  have m: "word_matches ?wheels ''ab'' = 2" "word_matches ?wheels ''abc'' = 0"
    "word_matches ?wheels ''ba'' = 2"
    by (simp_all add: word_matches_def isalpha_c_def tolower_c_def match_offsets_def
        matches_at_def alphabetindex_def char_int_def upt_rec)
  have "ProcessDictionary ?wheels 3 2 (Some (join_lines [''ab'', ''abc'', ''ba''])) =
           (printed ?wheels [''ab'', ''abc'', ''ba'']
              @ [PrintFound (of_nat (total_matches ?wheels [''ab'', ''abc'', ''ba'']))],
            Inr (of_nat (total_matches ?wheels [''ab'', ''abc'', ''ba''])), ?wheels)"
    by (rule ProcessDictionary_total)
      (simp_all add: lock_ok_def ALPHABETLENGTH_def list_all_iff MAXWORDLENGTH_def NL_def NUL_def)
  then show ?thesis
    by (simp add: printed_def total_matches_def m tolower_c_def)
qed

text \<open>
  C2. An empty line of the dictionary is not rejected: it passes the alphabetic test
  and the length test, the matcher is called with length 0 and counts every offset, and
  the loop prints the empty word and adds \<open>wheelCount + 1\<close> to the total
  (\<open>ProcessDictionary_word_empty\<close>). With one wheel holding \<open>a\<close> and a dictionary of
  an empty line and the word \<open>b\<close>, the run prints an empty word and reports 2.
\<close>

theorem empty_line_is_matched:
  "main (Some (''1 1'' @ [NL] @ ''a'')) (Some ([NL] @ ''b'')) = [PrintWord [], PrintFound 2, PrintExit]"
  by code_simp

section \<open>Reading the lock: helper lemmas\<close>

text \<open>Extracting a count.\<close>

lemma digit_not_space: "isdigit_c c \<Longrightarrow> \<not> isspace_c c"
  by (auto simp: isdigit_c_def isspace_c_def)

lemma digit_not_sign: "isdigit_c c \<Longrightarrow> c \<noteq> CHR ''-'' \<and> c \<noteq> CHR ''+''"
  by (auto simp: isdigit_c_def)

lemma dropWhile_space_digits:
  assumes "list_all isspace_c sep" and "ds \<noteq> []" and "list_all isdigit_c ds"
  shows "dropWhile isspace_c (sep @ ds @ rest) = ds @ rest"
proof -
  from assms(2,3) obtain d ds' where ds: "ds = d # ds'" and "isdigit_c d"
    by (cases ds) auto
  then have "\<not> isspace_c d" by (simp add: digit_not_space)
  with ds assms(1) show ?thesis
    by (simp add: dropWhile_append3 list_all_iff)
qed

lemma skip_sign_digits:
  assumes "ds \<noteq> []" and "list_all isdigit_c ds"
  shows "skip_sign (ds @ rest) = ds @ rest"
  using assms by (cases ds) (auto simp: skip_sign_def dest: digit_not_sign)

lemma takeWhile_digits:
  assumes "list_all isdigit_c ds" and "rest = [] \<or> \<not> isdigit_c (hd rest)"
  shows "takeWhile isdigit_c (ds @ rest) = ds" and "dropWhile isdigit_c (ds @ rest) = rest"
  using assms by (cases rest; simp add: list_all_iff takeWhile_append2 dropWhile_append2)+

lemma extract_uint_digits:
  assumes "good s" and "buf s = sep @ ds @ rest"
    and "list_all isspace_c sep" and "ds \<noteq> []" and "list_all isdigit_c ds"
    and "rest = [] \<or> \<not> isdigit_c (hd rest)"
    and "decimal ds < 2 ^ 32"
  shows "extract_uint s v =
           (word_of_int (decimal ds), \<lparr>buf = rest, eofbit = (rest = []), failbit = False\<rparr>)"
proof -
  have b: "dropWhile isspace_c (buf s) = ds @ rest"
    using assms(2) dropWhile_space_digits [OF assms(3,4,5)] by simp
  have h: "hd (ds @ rest) \<noteq> CHR ''-''"
    using assms(4,5) by (cases ds) (auto dest: digit_not_sign)
  show ?thesis
    using assms(1,4,7) h
    by (simp add: extract_uint_def b Let_def skip_sign_digits [OF assms(4,5)]
        takeWhile_digits [OF assms(5,6)])
qed

lemma extract_uint_zero:
  assumes "good s" and "number_field (buf s) = [] \<or> decimal (number_field (buf s)) = 0"
  shows "fst (extract_uint s 0) = 0"
  using assms by (auto simp: extract_uint_def Let_def number_field_def)

lemma extract_uint_not_good: "\<not> good s \<Longrightarrow> fst (extract_uint s v) = v"
  by (simp add: extract_uint_def)


text \<open>The loop over the letters of one wheel, and \<^verbatim>\<open>getline\<close> on one line.\<close>

lemma alphabetindex_alpha:
  "isalpha_c c \<Longrightarrow> 0 \<le> alphabetindex (tolower_c c) \<and> alphabetindex (tolower_c c) < 26"
  by (intro alphabetindex_lower lower_letter_tolower_c)

lemma length_set_letter [simp]: "length (set_letter c w) = length w"
  by (simp add: set_letter_def)

lemma length_fold_set_letter [simp]: "length (fold set_letter l w) = length w"
  by (induction l arbitrary: w) simp_all

lemma wheel_set_alpha:
  assumes "i < length wheels" and "length (wheels ! i) = ALPHABETLENGTH" and "isalpha_c c"
  shows "wheel_set wheels i (alphabetindex (tolower_c c)) = Inr (wheels[i := set_letter c (wheels ! i)])"
  using assms alphabetindex_alpha [OF assms(3)]
  by (auto simp: wheel_set_def set_letter_def ALPHABETLENGTH_def)

lemma ReadWheelFile_letters_ok:
  assumes "i < length wheels" and "length (wheels ! i) = ALPHABETLENGTH"
    and "list_all isalpha_c l" and "j \<le> length l"
  shows "ReadWheelFile_letters wheels (l @ rest) (length l) i j =
           Inr (wheels[i := fold set_letter (drop j l) (wheels ! i)])"
  using assms(1,2,4)
proof (induction "length l - j" arbitrary: j wheels)
  case 0
  then show ?case by (subst ReadWheelFile_letters.simps) simp
next
  case (Suc n)
  then have j: "j < length l" by simp
  then have a: "isalpha_c (l ! j)" using assms(3) by (simp add: list_all_length)
  let ?w = "wheels[i := set_letter (l ! j) (wheels ! i)]"
  have IH: "ReadWheelFile_letters ?w (l @ rest) (length l) i (Suc j) =
              Inr (?w[i := fold set_letter (drop (Suc j) l) (?w ! i)])"
    using Suc.hyps(2) j Suc.prems by (intro Suc.hyps(1)) simp_all
  have d: "drop j l = l ! j # drop (Suc j) l" using j by (simp add: Cons_nth_drop_Suc)
  show ?case
    using j a Suc.prems(1)
    by (subst ReadWheelFile_letters.simps)
      (simp add: nth_append wheel_set_alpha [OF Suc.prems(1,2) a] IH d)
qed

lemma ReadWheelFile_letters_bad:
  assumes "i < length wheels" and "length (wheels ! i) = ALPHABETLENGTH"
    and "list_all isalpha_c pre" and "\<not> isalpha_c c" and "length pre < n" and "j \<le> length pre"
  shows "ReadWheelFile_letters wheels (pre @ c # post) n i j =
           Inl (if c = NUL then InsufficientLetters else NonAlphabetical)"
  using assms(1,2,6)
proof (induction "length pre - j" arbitrary: j wheels)
  case 0
  then have j: "j = length pre" by simp
  show ?case
    using assms(4,5) by (subst ReadWheelFile_letters.simps) (simp add: j)
next
  case (Suc m)
  then have j: "j < length pre" by simp
  then have a: "isalpha_c (pre ! j)" using assms(3) by (simp add: list_all_length)
  let ?w = "wheels[i := set_letter (pre ! j) (wheels ! i)]"
  have IH: "ReadWheelFile_letters ?w (pre @ c # post) n i (Suc j) =
              Inl (if c = NUL then InsufficientLetters else NonAlphabetical)"
    using Suc.hyps(2) j Suc.prems by (intro Suc.hyps(1)) simp_all
  show ?case
    using j a assms(5)
    by (subst ReadWheelFile_letters.simps)
      (simp add: nth_append wheel_set_alpha [OF Suc.prems(1,2) a] IH)
qed

lemma getline_scan_full:
  "NL \<notin> set l \<Longrightarrow> k < length l \<Longrightarrow>
     getline_scan (l @ rest) k = (take k l, drop k l @ rest, False, True)"
proof (induction l arbitrary: k)
  case Nil
  then show ?case by simp
next
  case (Cons c cs)
  then show ?case by (cases k) auto
qed

lemma getline_line:
  assumes "good s" and "buf s = l @ NL # rest" and "NL \<notin> set l" and "length l < n"
  shows "getline s n = (l, \<lparr>buf = rest, eofbit = False, failbit = False\<rparr>)"
  using assms by (simp add: getline_def getline_scan_line)

lemma getline_last:
  assumes "good s" and "buf s = l" and "l \<noteq> []" and "NL \<notin> set l" and "length l < n"
  shows "getline s n = (l, \<lparr>buf = [], eofbit = True, failbit = False\<rparr>)"
  using assms by (simp add: getline_def getline_scan_last)

lemma getline_too_long:
  assumes "good s" and "buf s = l @ rest" and "NL \<notin> set l" and "length l = n" and "0 < n"
  shows "failbit (snd (getline s n))"
  using assms by (simp add: getline_def getline_scan_full)

lemma alpha_not_NL: "list_all isalpha_c l \<Longrightarrow> NL \<notin> set l"
  by (auto simp: list_all_iff isalpha_c_def NL_def)


lemma length_fill_wheels [simp]: "length (fill_wheels ls i ws) = length ws"
  by (induction ls arbitrary: i ws) simp_all

lemma fill_wheels_below: "k < i \<Longrightarrow> fill_wheels ls i ws ! k = ws ! k"
  by (induction ls arbitrary: i ws) simp_all

lemma fill_wheels_above: "i + length ls \<le> k \<Longrightarrow> fill_wheels ls i ws ! k = ws ! k"
  by (induction ls arbitrary: i ws) simp_all

lemma fill_wheels_nth:
  "k < length ls \<Longrightarrow> i + length ls \<le> length ws \<Longrightarrow>
     fill_wheels ls i ws ! (i + k) = fold set_letter (ls ! k) (ws ! (i + k))"
proof (induction ls arbitrary: i ws k)
  case Nil
  then show ?case by simp
next
  case (Cons l ls)
  show ?case
  proof (cases k)
    case 0
    with Cons.prems show ?thesis by (simp add: fill_wheels_below)
  next
    case (Suc m)
    with Cons.prems Cons.IH [of m "Suc i" "ws[i := fold set_letter l (ws ! i)]"]
    show ?thesis by simp
  qed
qed

lemma fill_wheels_inv:
  "list_all (\<lambda>w. length w = ALPHABETLENGTH) ws \<Longrightarrow>
     list_all (\<lambda>w. length w = ALPHABETLENGTH) (fill_wheels ls i ws)"
proof (induction ls arbitrary: i ws)
  case Nil
  then show ?case by simp
next
  case (Cons l ls)
  have "list_all (\<lambda>w. length w = ALPHABETLENGTH) (ws[i := fold set_letter l (ws ! i)])"
    using Cons.prems by (cases "i < length ws") (auto simp: list_all_length nth_list_update)
  then show ?case by (simp add: Cons.IH)
qed

lemma fill_wheels_snoc:
  "fill_wheels (ls @ [l]) i ws =
     (fill_wheels ls i ws)[i + length ls := fold set_letter l (fill_wheels ls i ws ! (i + length ls))]"
  by (induction ls arbitrary: i ws) simp_all

lemma fold_set_letter_nth:
  "list_all isalpha_c l \<Longrightarrow> k < length w \<Longrightarrow>
     fold set_letter l w ! k = (w ! k \<or> (\<exists>c\<in>set l. alphabetindex (tolower_c c) = int k))"
proof (induction l arbitrary: w)
  case Nil
  then show ?case by simp
next
  case (Cons c cs)
  then have "0 \<le> alphabetindex (tolower_c c)" using alphabetindex_alpha [of c] by simp
  then have eq: "(k = nat (alphabetindex (tolower_c c))) = (alphabetindex (tolower_c c) = int k)"
    by auto
  have "set_letter c w ! k = (w ! k \<or> alphabetindex (tolower_c c) = int k)"
    using Cons.prems(2) eq by (auto simp: set_letter_def nth_list_update)
  with Cons show ?case by auto
qed

lemma ReadWheelFile_wheels_prefix:
  assumes "unat (N + 1) = Suc (unat N)"
    and "\<forall>l\<in>set ls. length l = unat N \<and> list_all isalpha_c l"
    and "i + length ls \<le> unat W"
    and "length ws = unat W"
    and "list_all (\<lambda>w. length w = ALPHABETLENGTH) ws"
  shows "ReadWheelFile_wheels \<lparr>buf = lines_text ls @ tail, eofbit = False, failbit = False\<rparr>
           ws letters W N i =
         ReadWheelFile_wheels \<lparr>buf = tail, eofbit = False, failbit = False\<rparr>
           (fill_wheels ls i ws) (fold store_line ls letters) W N (i + length ls)"
  using assms(2-5)
proof (induction ls arbitrary: i ws letters)
  case Nil
  then show ?case by (simp add: lines_text_def)
next
  case (Cons l ls)
  then have l: "length l = unat N" "list_all isalpha_c l" and i: "i < unat W" by simp_all
  have gl: "getline \<lparr>buf = l @ NL # lines_text ls @ tail, eofbit = False, failbit = False\<rparr>
              (Suc (unat N)) =
            (l, \<lparr>buf = lines_text ls @ tail, eofbit = False, failbit = False\<rparr>)"
    using l by (intro getline_line) (simp_all add: good_def alpha_not_NL)
  have wi: "i < length ws" "length (ws ! i) = ALPHABETLENGTH"
    using i Cons.prems by (simp_all add: list_all_length)
  have lt: "ReadWheelFile_letters ws (store_line l letters) (unat N) i 0 =
              Inr (ws[i := fold set_letter l (ws ! i)])"
    using ReadWheelFile_letters_ok [OF wi l(2), of 0 "[NUL] @ drop (Suc (length l)) letters"] l(1)
    by (simp add: store_line_def)
  have inv: "list_all (\<lambda>w. length w = ALPHABETLENGTH) (ws[i := fold set_letter l (ws ! i)])"
    using Cons.prems(4) wi by (auto simp: list_all_length nth_list_update)
  have IH: "ReadWheelFile_wheels \<lparr>buf = lines_text ls @ tail, eofbit = False, failbit = False\<rparr>
           (ws[i := fold set_letter l (ws ! i)]) (store_line l letters) W N (Suc i) =
         ReadWheelFile_wheels \<lparr>buf = tail, eofbit = False, failbit = False\<rparr>
           (fill_wheels ls (Suc i) (ws[i := fold set_letter l (ws ! i)]))
           (fold store_line ls (store_line l letters)) W N (Suc i + length ls)"
    using Cons.prems inv by (intro Cons.IH) simp_all
  show ?case
    by (subst ReadWheelFile_wheels.simps)
      (simp add: i assms(1) lines_text_def gl [unfolded lines_text_def] lt IH [unfolded lines_text_def])
qed

lemma ReadWheelFile_wheels_last:
  assumes "unat (N + 1) = Suc (unat N)"
    and "length l = unat N" and "list_all isalpha_c l" and "l \<noteq> []"
    and "rest = [] \<or> hd rest = NL"
    and "Suc i = unat W"
    and "length ws = unat W"
    and "list_all (\<lambda>w. length w = ALPHABETLENGTH) ws"
  shows "ReadWheelFile_wheels \<lparr>buf = l @ rest, eofbit = False, failbit = False\<rparr> ws letters W N i =
           Inr (ws[i := fold set_letter l (ws ! i)], store_line l letters)"
proof -
  have i: "i < unat W" using assms(6) by simp
  obtain s' where gl: "getline \<lparr>buf = l @ rest, eofbit = False, failbit = False\<rparr> (Suc (unat N)) = (l, s')"
    and nf: "\<not> failbit s'"
  proof (cases rest)
    case Nil
    then show ?thesis
      using that assms(2,3,4) getline_last [of "\<lparr>buf = l @ rest, eofbit = False, failbit = False\<rparr>" l "Suc (unat N)"]
      by (simp add: good_def alpha_not_NL)
  next
    case (Cons c r)
    then show ?thesis
      using that assms(2,3,5) getline_line [of "\<lparr>buf = l @ rest, eofbit = False, failbit = False\<rparr>" l r "Suc (unat N)"]
      by (simp add: good_def alpha_not_NL)
  qed
  have wi: "i < length ws" "length (ws ! i) = ALPHABETLENGTH"
    using i assms(7,8) by (simp_all add: list_all_length)
  have lt: "ReadWheelFile_letters ws (store_line l letters) (unat N) i 0 =
              Inr (ws[i := fold set_letter l (ws ! i)])"
    using ReadWheelFile_letters_ok [OF wi assms(3), of 0 "[NUL] @ drop (Suc (length l)) letters"] assms(2)
    by (simp add: store_line_def)
  have stop: "ReadWheelFile_wheels s' (ws[i := fold set_letter l (ws ! i)]) (store_line l letters) W N (Suc i) =
      Inr (ws[i := fold set_letter l (ws ! i)], store_line l letters)"
    using assms(6) by (subst ReadWheelFile_wheels.simps) simp
  show ?thesis
    by (subst ReadWheelFile_wheels.simps) (simp add: i assms(1) gl nf lt stop)
qed


text \<open>The header of the file, and the loop over the wheels.\<close>

lemma space_not_digit: "isspace_c c \<Longrightarrow> \<not> isdigit_c c"
  by (auto simp: isdigit_c_def isspace_c_def)

lemma uint_word_of_int_small:
  assumes "0 \<le> k" and "k < 2 ^ 32"
  shows "uint (word_of_int k :: uint) = k"
  using assms by (intro word_of_int_inverse) simp_all

lemma unat_word_of_int_small:
  assumes "0 \<le> k" and "k < 2 ^ 32"
  shows "unat (word_of_int k :: uint) = nat k"
  using uint_word_of_int_small [OF assms] by (simp only: unat_eq_nat_uint)

lemma ReadWheelFile_header:
  assumes "count_field ds1 (2 ^ 32)" and "sep \<noteq> []" and "list_all isspace_c sep"
    and "count_field ds2 (2 ^ 32 - 1)"
  shows "ReadWheelFile (Some (ds1 @ sep @ ds2 @ NL # body)) wc0 lpw0 =
           (case ReadWheelFile_wheels \<lparr>buf = body, eofbit = False, failbit = False\<rparr>
                   (replicate (nat (decimal ds1)) (replicate ALPHABETLENGTH False))
                   (replicate (Suc (nat (decimal ds2))) NUL)
                   (word_of_int (decimal ds1)) (word_of_int (decimal ds2)) 0 of
              Inl e \<Rightarrow> Inl e
            | Inr (wheels', letters') \<Rightarrow>
                Inr \<lparr>lock_wheels = wheels', lock_letters = letters',
                     lock_wheelCount = word_of_int (decimal ds1),
                     lock_lettersPerWheel = word_of_int (decimal ds2)\<rparr>)"
    and "unat (word_of_int (decimal ds1) :: uint) = nat (decimal ds1)"
    and "unat (word_of_int (decimal ds2) :: uint) = nat (decimal ds2)"
    and "unat ((word_of_int (decimal ds2) :: uint) + 1) = Suc (unat (word_of_int (decimal ds2) :: uint))"
proof -
  let ?W = "word_of_int (decimal ds1) :: uint" and ?N = "word_of_int (decimal ds2) :: uint"
  from assms(1) have d1: "ds1 \<noteq> []" "list_all isdigit_c ds1" "0 < decimal ds1" "decimal ds1 < 2 ^ 32"
    by (simp_all add: count_field_def)
  from assms(4) have d2: "ds2 \<noteq> []" "list_all isdigit_c ds2" "0 < decimal ds2" "decimal ds2 < 2 ^ 32 - 1"
    by (simp_all add: count_field_def)
  show uW: "unat ?W = nat (decimal ds1)" using d1 by (intro unat_word_of_int_small) simp_all
  show uN: "unat ?N = nat (decimal ds2)" using d2 by (intro unat_word_of_int_small) simp_all
  have "unat ?N + unat (1 :: uint) < 2 ^ LENGTH(32)" using uN d2 by simp
  then have "unat (?N + 1) = unat ?N + unat (1 :: uint)" by (simp only: unat_add_lem)
  then show uN1: "unat (?N + 1) = Suc (unat ?N)" by simp
  have W0: "?W \<noteq> 0" using uW d1 by (metis unat_0 nat_0_iff not_le)
  have N0: "?N \<noteq> 0" using uN d2 by (metis unat_0 nat_0_iff not_le)
  from assms(2,3) have hs: "\<not> isdigit_c (hd (sep @ ds2 @ NL # body))"
    by (cases sep) (auto simp: space_not_digit)
  have e1: "extract_uint \<lparr>buf = ds1 @ sep @ ds2 @ NL # body, eofbit = False, failbit = False\<rparr> wc0 =
              (?W, \<lparr>buf = sep @ ds2 @ NL # body, eofbit = False, failbit = False\<rparr>)"
    using extract_uint_digits [of "\<lparr>buf = ds1 @ sep @ ds2 @ NL # body, eofbit = False, failbit = False\<rparr>"
        "[]" ds1 "sep @ ds2 @ NL # body" wc0] d1 hs assms(2)
    by (simp add: good_def)
  have "\<not> isdigit_c NL" by (simp add: isdigit_c_def NL_def)
  then have e2: "extract_uint \<lparr>buf = sep @ ds2 @ NL # body, eofbit = False, failbit = False\<rparr> lpw0 =
              (?N, \<lparr>buf = NL # body, eofbit = False, failbit = False\<rparr>)"
    using extract_uint_digits [of "\<lparr>buf = sep @ ds2 @ NL # body, eofbit = False, failbit = False\<rparr>"
        sep ds2 "NL # body" lpw0] d2 assms(3)
    by (simp add: good_def)
  have g: "getline \<lparr>buf = NL # body, eofbit = False, failbit = False\<rparr> (Suc 0) =
             ([], \<lparr>buf = body, eofbit = False, failbit = False\<rparr>)"
    by (simp add: getline_def good_def)
  have st: "store_line [] (replicate (Suc (nat (decimal ds2))) NUL) = replicate (Suc (nat (decimal ds2))) NUL"
    by (simp add: store_line_def)
  show "ReadWheelFile (Some (ds1 @ sep @ ds2 @ NL # body)) wc0 lpw0 =
           (case ReadWheelFile_wheels \<lparr>buf = body, eofbit = False, failbit = False\<rparr>
                   (replicate (nat (decimal ds1)) (replicate ALPHABETLENGTH False))
                   (replicate (Suc (nat (decimal ds2))) NUL) ?W ?N 0 of
              Inl e \<Rightarrow> Inl e
            | Inr (wheels', letters') \<Rightarrow>
                Inr \<lparr>lock_wheels = wheels', lock_letters = letters',
                     lock_wheelCount = ?W, lock_lettersPerWheel = ?N\<rparr>)"
    unfolding ReadWheelFile_def
    by (simp add: open_file_def good_def e1 e2 W0 N0 uW uN uN1 g st Let_def del: replicate_Suc)
qed


lemma join_lines_snoc: "join_lines (ls @ [l]) = lines_text ls @ l"
  by (induction ls rule: join_lines.induct) (simp_all add: lines_text_def)

lemma aborts_withI:
  "ReadWheelFile (Some content) 0 0 = Inl e \<Longrightarrow> e \<noteq> OutOfBounds \<Longrightarrow> aborts_with content e"
  by (simp add: aborts_with_def main_def)

lemma getline_whole_line:
  assumes "good s" and "buf s = l @ tail" and "NL \<notin> set l" and "length l < n"
    and "tail = [] \<and> l \<noteq> [] \<or> tail \<noteq> [] \<and> hd tail = NL"
  shows "\<exists>s'. getline s n = (l, s') \<and> \<not> failbit s'"
proof (cases tail)
  case Nil
  with assms show ?thesis using getline_last [of s l n] by simp
next
  case (Cons c r)
  with assms show ?thesis using getline_line [of s l r n] by simp
qed

lemma ReadWheelFile_wheels_too_many:
  assumes "i < unat W" and "unat (N + 1) = Suc (unat N)"
    and "length bad = Suc (unat N)" and "NL \<notin> set bad"
  shows "ReadWheelFile_wheels \<lparr>buf = bad @ tail, eofbit = False, failbit = False\<rparr> ws letters W N i =
           Inl TooManyLetters"
proof -
  obtain line s' where gl: "getline \<lparr>buf = bad @ tail, eofbit = False, failbit = False\<rparr>
      (Suc (unat N)) = (line, s')"
    by (cases "getline \<lparr>buf = bad @ tail, eofbit = False, failbit = False\<rparr> (Suc (unat N))")
  have "failbit (snd (getline \<lparr>buf = bad @ tail, eofbit = False, failbit = False\<rparr> (Suc (unat N))))"
    using assms(3,4) by (intro getline_too_long [where l = bad and rest = tail]) (simp_all add: good_def)
  with gl have "failbit s'" by simp
  then show ?thesis
    using assms(1,2) by (subst ReadWheelFile_wheels.simps) (simp add: gl)
qed

lemma ReadWheelFile_wheels_bad_letter:
  assumes "i < unat W" and "unat (N + 1) = Suc (unat N)"
    and "length ws = unat W" and "list_all (\<lambda>w. length w = ALPHABETLENGTH) ws"
    and "list_all isalpha_c pre" and "\<not> isalpha_c c" and "NL \<notin> set (c # post)"
    and "length pre < unat N" and "length (pre @ c # post) \<le> unat N"
    and "tail = [] \<or> hd tail = NL"
  shows "ReadWheelFile_wheels \<lparr>buf = pre @ c # post @ tail, eofbit = False, failbit = False\<rparr>
           ws letters W N i =
           Inl (if c = NUL then InsufficientLetters else NonAlphabetical)"
proof -
  let ?line = "pre @ c # post"
  have "\<exists>s'. getline \<lparr>buf = pre @ c # post @ tail, eofbit = False, failbit = False\<rparr> (Suc (unat N)) =
               (?line, s') \<and> \<not> failbit s'"
    using assms(5,7,9,10)
    by (intro getline_whole_line [where tail = tail]) (auto simp: good_def dest: alpha_not_NL)
  then obtain s' where gl: "getline \<lparr>buf = pre @ c # post @ tail, eofbit = False, failbit = False\<rparr>
      (Suc (unat N)) = (?line, s')" and nf: "\<not> failbit s'" by blast
  have wi: "i < length ws" "length (ws ! i) = ALPHABETLENGTH"
    using assms(1,3,4) by (simp_all add: list_all_length)
  have lt: "ReadWheelFile_letters ws (store_line ?line letters) (unat N) i 0 =
              Inl (if c = NUL then InsufficientLetters else NonAlphabetical)"
    using ReadWheelFile_letters_bad [OF wi assms(5,6,8), of 0
        "post @ [NUL] @ drop (Suc (length ?line)) letters"]
    by (simp add: store_line_def)
  show ?thesis
    using assms(1,2) by (subst ReadWheelFile_wheels.simps) (simp add: gl nf lt)
qed

lemma ReadWheelFile_wheels_short:
  assumes "i < unat W" and "unat (N + 1) = Suc (unat N)"
    and "length ws = unat W" and "list_all (\<lambda>w. length w = ALPHABETLENGTH) ws"
    and "list_all isalpha_c bad" and "length bad < unat N"
    and "tail = [] \<and> bad \<noteq> [] \<or> tail \<noteq> [] \<and> hd tail = NL"
  shows "ReadWheelFile_wheels \<lparr>buf = bad @ tail, eofbit = False, failbit = False\<rparr>
           ws letters W N i = Inl InsufficientLetters"
proof -
  have "\<exists>s'. getline \<lparr>buf = bad @ tail, eofbit = False, failbit = False\<rparr> (Suc (unat N)) =
               (bad, s') \<and> \<not> failbit s'"
    using assms(5,6,7)
    by (intro getline_whole_line [where tail = tail]) (auto simp: good_def dest: alpha_not_NL)
  then obtain s' where gl: "getline \<lparr>buf = bad @ tail, eofbit = False, failbit = False\<rparr>
      (Suc (unat N)) = (bad, s')" and nf: "\<not> failbit s'" by blast
  have wi: "i < length ws" "length (ws ! i) = ALPHABETLENGTH"
    using assms(1,3,4) by (simp_all add: list_all_length)
  have "\<not> isalpha_c NUL" by (simp add: isalpha_c_def NUL_def)
  then have lt: "ReadWheelFile_letters ws (store_line bad letters) (unat N) i 0 = Inl InsufficientLetters"
    using ReadWheelFile_letters_bad [OF wi assms(5) _ assms(6), of NUL 0
        "drop (Suc (length bad)) letters"]
    by (simp add: store_line_def)
  show ?thesis
    using assms(1,2) by (subst ReadWheelFile_wheels.simps) (simp add: gl nf lt)
qed

lemma ReadWheelFile_at_line:
  assumes "wheel_prefix_ok ds1 sep ds2 full"
  defines "W \<equiv> word_of_int (decimal ds1) :: uint"
    and "N \<equiv> word_of_int (decimal ds2) :: uint"
    and "ws \<equiv> fill_wheels full 0 (replicate (nat (decimal ds1)) (replicate ALPHABETLENGTH False))"
    and "letters \<equiv> fold store_line full (replicate (Suc (nat (decimal ds2))) NUL)"
  shows "ReadWheelFile (Some (wheel_text ds1 sep ds2 full tail)) wc0 lpw0 =
       (case ReadWheelFile_wheels \<lparr>buf = tail, eofbit = False, failbit = False\<rparr>
               ws letters W N (length full) of
          Inl e \<Rightarrow> Inl e
        | Inr (wheels', letters') \<Rightarrow>
            Inr \<lparr>lock_wheels = wheels', lock_letters = letters',
                 lock_wheelCount = W, lock_lettersPerWheel = N\<rparr>)"
    and "length full < unat W" and "unat (N + 1) = Suc (unat N)"
    and "length ws = unat W" and "list_all (\<lambda>w. length w = ALPHABETLENGTH) ws"
    and "unat N = nat (decimal ds2)"
proof -
  let ?ws = "replicate (nat (decimal ds1)) (replicate ALPHABETLENGTH False)"
  let ?letters = "replicate (Suc (nat (decimal ds2))) NUL"
  from assms(1) have p: "count_field ds1 (2 ^ 32)" "sep \<noteq> []" "list_all isspace_c sep"
    "count_field ds2 (2 ^ 32 - 1)" "length full < nat (decimal ds1)"
    "\<forall>l\<in>set full. length l = nat (decimal ds2) \<and> list_all isalpha_c l"
    by (simp_all add: wheel_prefix_ok_def list_all_iff)
  note hdr = ReadWheelFile_header [OF p(1-4), folded W_def N_def]
  have ws0: "length ?ws = unat W" "list_all (\<lambda>w. length w = ALPHABETLENGTH) ?ws"
    using hdr(2) by (simp_all add: list_all_iff)
  have fl: "\<forall>x\<in>set full. length x = unat N \<and> list_all isalpha_c x"
    using p(6) hdr(3) by simp
  have pre: "ReadWheelFile_wheels \<lparr>buf = lines_text full @ tail, eofbit = False, failbit = False\<rparr>
           ?ws ?letters W N 0 =
         ReadWheelFile_wheels \<lparr>buf = tail, eofbit = False, failbit = False\<rparr>
           (fill_wheels full 0 ?ws) (fold store_line full ?letters) W N (0 + length full)"
    using p(5) hdr(2) by (intro ReadWheelFile_wheels_prefix [OF hdr(4) fl _ ws0]) simp
  show "ReadWheelFile (Some (wheel_text ds1 sep ds2 full tail)) wc0 lpw0 =
       (case ReadWheelFile_wheels \<lparr>buf = tail, eofbit = False, failbit = False\<rparr>
               ws letters W N (length full) of
          Inl e \<Rightarrow> Inl e
        | Inr (wheels', letters') \<Rightarrow>
            Inr \<lparr>lock_wheels = wheels', lock_letters = letters',
                 lock_wheelCount = W, lock_lettersPerWheel = N\<rparr>)"
    using pre by (simp add: wheel_text_def hdr(1) ws_def letters_def)
  show "length full < unat W" using p(5) hdr(2) by simp
  show "unat (N + 1) = Suc (unat N)" by (rule hdr(4))
  show "length ws = unat W" using ws0 by (simp add: ws_def)
  show "list_all (\<lambda>w. length w = ALPHABETLENGTH) ws"
    using ws0 by (simp add: ws_def fill_wheels_inv)
  show "unat N = nat (decimal ds2)" by (rule hdr(3))
qed


lemma ReadWheelFile_no_count:
  assumes "number_field content = [] \<or> decimal (number_field content) = 0"
  shows "ReadWheelFile (Some content) 0 lpw0 = Inl InvalidWheelCount"
proof -
  have "fst (extract_uint \<lparr>buf = content, eofbit = False, failbit = False\<rparr> 0) = 0"
    using assms by (intro extract_uint_zero) (simp_all add: good_def)
  then obtain s1 where "extract_uint \<lparr>buf = content, eofbit = False, failbit = False\<rparr> 0 = (0, s1)"
    by (cases "extract_uint \<lparr>buf = content, eofbit = False, failbit = False\<rparr> 0") simp
  then show ?thesis
    by (simp add: ReadWheelFile_def open_file_def good_def)
qed

lemma ReadWheelFile_no_letters:
  assumes "count_field ds1 (2 ^ 32)" and "rest1 = [] \<or> \<not> isdigit_c (hd rest1)"
    and "number_field rest1 = [] \<or> decimal (number_field rest1) = 0"
  shows "ReadWheelFile (Some (ds1 @ rest1)) wc0 0 = Inl InvalidLettersPerWheel"
proof -
  let ?W = "word_of_int (decimal ds1) :: uint"
  from assms(1) have d1: "ds1 \<noteq> []" "list_all isdigit_c ds1" "0 < decimal ds1" "decimal ds1 < 2 ^ 32"
    by (simp_all add: count_field_def)
  have uW: "unat ?W = nat (decimal ds1)" using d1 by (intro unat_word_of_int_small) simp_all
  have W0: "?W \<noteq> 0" using uW d1 by (metis unat_0 nat_0_iff not_le)
  let ?s1 = "\<lparr>buf = rest1, eofbit = (rest1 = []), failbit = False\<rparr>"
  have e1: "extract_uint \<lparr>buf = ds1 @ rest1, eofbit = False, failbit = False\<rparr> wc0 = (?W, ?s1)"
    using extract_uint_digits [of "\<lparr>buf = ds1 @ rest1, eofbit = False, failbit = False\<rparr>"
        "[]" ds1 rest1 wc0] d1 assms(2)
    by (simp add: good_def)
  have "fst (extract_uint ?s1 0) = 0"
  proof (cases "good ?s1")
    case True
    then show ?thesis using assms(3) by (intro extract_uint_zero) simp_all
  next
    case False
    then show ?thesis by (rule extract_uint_not_good)
  qed
  then obtain s2 where "extract_uint ?s1 0 = (0, s2)"
    by (cases "extract_uint ?s1 0") simp
  then show ?thesis
    by (simp add: ReadWheelFile_def open_file_def good_def e1 W0 Let_def)
qed

section \<open>Reading the lock: claims\<close>

text \<open>
  C8. Given a wheel count \<open>W > 0\<close> and a letter count \<open>N > 0\<close> (decimal, with white space
  between them and a line end after them; \<open>N + 1\<close>, the size of the line buffer, must fit
  a \<^verbatim>\<open>uint\<close>) and, for each wheel, a line of exactly \<open>N\<close> alphabetic characters
  (the last one ended by a line end or by the end of the file), \<^verbatim>\<open>ReadWheelFile\<close>
  returns a lock of \<open>W\<close> wheels of 26 flags each, and flag \<open>k\<close> of wheel \<open>i\<close> is set
  exactly when a letter of line \<open>i\<close> has index \<open>k\<close> once lowered. The lines are
  arbitrary, so a letter may occur twice on a line: it sets the same flag again and is
  no error.
\<close>

theorem ReadWheelFile_builds_lock:
  assumes "count_field ds1 (2 ^ 32)" and "sep \<noteq> []" and "list_all isspace_c sep"
    and "count_field ds2 (2 ^ 32 - 1)"
    and "length lines = nat (decimal ds1)"
    and "\<forall>l\<in>set lines. length l = nat (decimal ds2) \<and> list_all isalpha_c l"
    and "rest = [] \<or> hd rest = NL"
  shows "\<exists>lk. ReadWheelFile (Some (ds1 @ sep @ ds2 @ NL # join_lines lines @ rest)) wc0 lpw0 = Inr lk
           \<and> uint (lock_wheelCount lk) = decimal ds1
           \<and> uint (lock_lettersPerWheel lk) = decimal ds2
           \<and> lock_ok (lock_wheels lk) (lock_wheelCount lk)
           \<and> length (lock_wheels lk) = length lines
           \<and> (\<forall>i<length lines. \<forall>k<ALPHABETLENGTH.
                 lock_wheels lk ! i ! k =
                   (\<exists>c\<in>set (lines ! i). alphabetindex (tolower_c c) = int k))"
proof -
  let ?W = "word_of_int (decimal ds1) :: uint" and ?N = "word_of_int (decimal ds2) :: uint"
  let ?ws = "replicate (nat (decimal ds1)) (replicate ALPHABETLENGTH False)"
  let ?letters = "replicate (Suc (nat (decimal ds2))) NUL"
  note hdr = ReadWheelFile_header [OF assms(1-4)]
  from assms(1) have d1: "0 < decimal ds1" by (simp add: count_field_def)
  from assms(4) have d2: "0 < decimal ds2" by (simp add: count_field_def)
  from d1 assms(5) have "lines \<noteq> []" by auto
  then obtain full l where lines: "lines = full @ [l]" by (cases lines rule: rev_cases) auto
  have full: "\<forall>x\<in>set full. length x = unat ?N \<and> list_all isalpha_c x"
    and l: "length l = unat ?N" "list_all isalpha_c l"
    using assms(6) lines hdr(3) by simp_all
  have lne: "l \<noteq> []" using l(1) hdr(3) d2 by auto
  have len: "Suc (length full) = unat ?W" using assms(5) lines hdr(2) by simp
  have ws: "length ?ws = unat ?W" "list_all (\<lambda>w. length w = ALPHABETLENGTH) ?ws"
    using hdr(2) by (simp_all add: list_all_iff)
  have pre: "ReadWheelFile_wheels \<lparr>buf = lines_text full @ l @ rest, eofbit = False, failbit = False\<rparr>
           ?ws ?letters ?W ?N 0 =
         ReadWheelFile_wheels \<lparr>buf = l @ rest, eofbit = False, failbit = False\<rparr>
           (fill_wheels full 0 ?ws) (fold store_line full ?letters) ?W ?N (0 + length full)"
    using len by (intro ReadWheelFile_wheels_prefix [OF hdr(4) full _ ws]) simp
  have last: "ReadWheelFile_wheels \<lparr>buf = l @ rest, eofbit = False, failbit = False\<rparr>
           (fill_wheels full 0 ?ws) (fold store_line full ?letters) ?W ?N (length full) =
         Inr ((fill_wheels full 0 ?ws)[length full :=
                 fold set_letter l (fill_wheels full 0 ?ws ! length full)],
              store_line l (fold store_line full ?letters))"
    using len ws by (intro ReadWheelFile_wheels_last [OF hdr(4) l lne assms(7)])
      (simp_all add: fill_wheels_inv)
  have fin: "(fill_wheels full 0 ?ws)[length full :=
                 fold set_letter l (fill_wheels full 0 ?ws ! length full)] = fill_wheels lines 0 ?ws"
    by (simp add: lines fill_wheels_snoc)
  let ?lk = "\<lparr>lock_wheels = fill_wheels lines 0 ?ws,
               lock_letters = store_line l (fold store_line full ?letters),
               lock_wheelCount = ?W, lock_lettersPerWheel = ?N\<rparr>"
  have run: "ReadWheelFile (Some (ds1 @ sep @ ds2 @ NL # join_lines lines @ rest)) wc0 lpw0 = Inr ?lk"
    using pre last by (simp add: hdr(1) lines join_lines_snoc fin)
  have ok: "lock_ok (fill_wheels lines 0 ?ws) ?W"
    using ws by (simp add: lock_ok_def fill_wheels_inv)
  have bits: "fill_wheels lines 0 ?ws ! i ! k =
                (\<exists>c\<in>set (lines ! i). alphabetindex (tolower_c c) = int k)"
    if "i < length lines" and "k < ALPHABETLENGTH" for i k
  proof -
    have "fill_wheels lines 0 ?ws ! (0 + i) = fold set_letter (lines ! i) (?ws ! (0 + i))"
      using that(1) assms(5) by (intro fill_wheels_nth) simp_all
    moreover have "list_all isalpha_c (lines ! i)" using that(1) assms(6) by simp
    ultimately show ?thesis
      using that assms(5) by (simp add: fold_set_letter_nth)
  qed
  have uW: "uint ?W = decimal ds1" and uN: "uint ?N = decimal ds2"
    using assms(1,4) by (simp_all add: count_field_def uint_word_of_int_small)
  show ?thesis
  proof (intro exI [of _ ?lk] conjI allI impI)
    show "ReadWheelFile (Some (ds1 @ sep @ ds2 @ NL # join_lines lines @ rest)) wc0 lpw0 = Inr ?lk"
      by (rule run)
    show "uint (lock_wheelCount ?lk) = decimal ds1" by (simp only: lock.select_convs uW)
    show "uint (lock_lettersPerWheel ?lk) = decimal ds2" by (simp only: lock.select_convs uN)
    show "lock_ok (lock_wheels ?lk) (lock_wheelCount ?lk)" using ok by (simp only: lock.select_convs)
    show "length (lock_wheels ?lk) = length lines" using assms(5) by simp
    show "lock_wheels ?lk ! i ! k = (\<exists>c\<in>set (lines ! i). alphabetindex (tolower_c c) = int k)"
      if "i < length lines" and "k < ALPHABETLENGTH" for i k
      using bits [OF that] by (simp only: lock.select_convs)
  qed
qed


theorem ReadWheelFile_builds_lock_witness:
  "\<exists>lk. ReadWheelFile (Some (''3 2'' @ [NL] @ ''ab'' @ [NL] @ ''Aa'' @ [NL] @ ''zz'' @ [NL])) 0 0 = Inr lk
     \<and> uint (lock_wheelCount lk) = 3 \<and> uint (lock_lettersPerWheel lk) = 2
     \<and> length (lock_wheels lk) = 3
     \<and> lock_wheels lk ! 1 ! 0 \<and> \<not> lock_wheels lk ! 1 ! 1 \<and> lock_wheels lk ! 2 ! 25"
proof -
  have "\<exists>lk. ReadWheelFile (Some (''3'' @ '' '' @ ''2'' @ NL # join_lines [''ab'', ''Aa'', ''zz''] @ [NL])) 0 0 = Inr lk
           \<and> uint (lock_wheelCount lk) = decimal ''3''
           \<and> uint (lock_lettersPerWheel lk) = decimal ''2''
           \<and> lock_ok (lock_wheels lk) (lock_wheelCount lk)
           \<and> length (lock_wheels lk) = length [''ab'', ''Aa'', ''zz'']
           \<and> (\<forall>i<length [''ab'', ''Aa'', ''zz'']. \<forall>k<ALPHABETLENGTH.
                 lock_wheels lk ! i ! k =
                   (\<exists>c\<in>set ([''ab'', ''Aa'', ''zz''] ! i). alphabetindex (tolower_c c) = int k))"
    by (rule ReadWheelFile_builds_lock)
      (simp_all add: count_field_def decimal_def isdigit_c_def isspace_c_def isalpha_c_def)
  then obtain lk where
    run: "ReadWheelFile (Some (''3'' @ '' '' @ ''2'' @ NL # join_lines [''ab'', ''Aa'', ''zz''] @ [NL])) 0 0 = Inr lk"
    and n: "uint (lock_wheelCount lk) = decimal ''3''"
      "uint (lock_lettersPerWheel lk) = decimal ''2''"
    and ok: "lock_ok (lock_wheels lk) (lock_wheelCount lk)"
    and len: "length (lock_wheels lk) = length [''ab'', ''Aa'', ''zz'']"
    and bits: "\<forall>i<length [''ab'', ''Aa'', ''zz'']. \<forall>k<ALPHABETLENGTH.
                 lock_wheels lk ! i ! k =
                   (\<exists>c\<in>set ([''ab'', ''Aa'', ''zz''] ! i). alphabetindex (tolower_c c) = int k)"
    by blast
  from n have n': "uint (lock_wheelCount lk) = 3" "uint (lock_lettersPerWheel lk) = 2"
    by (simp_all add: decimal_def)
  have b1: "lock_wheels lk ! 1 ! 0 = (\<exists>c\<in>set ([''ab'', ''Aa'', ''zz''] ! 1). alphabetindex (tolower_c c) = int 0)"
    using bits [rule_format, of 1 0] by (simp add: ALPHABETLENGTH_def)
  have b2: "lock_wheels lk ! 1 ! 1 = (\<exists>c\<in>set ([''ab'', ''Aa'', ''zz''] ! 1). alphabetindex (tolower_c c) = int 1)"
    using bits [rule_format, of 1 1] by (simp add: ALPHABETLENGTH_def)
  have b3: "lock_wheels lk ! 2 ! 25 = (\<exists>c\<in>set ([''ab'', ''Aa'', ''zz''] ! 2). alphabetindex (tolower_c c) = int 25)"
    using bits [rule_format, of 2 25] by (simp add: ALPHABETLENGTH_def)
  from run n' len b1 b2 b3 show ?thesis
    by (intro exI [of _ lk]) (simp add: alphabetindex_def char_int_def of_char_tolower_c)
qed

text \<open>
  C9. \<^verbatim>\<open>ReadWheelFile\<close> fails with an error of its own, and the run prints that error
  and no match output, in each of these cases: the wheel count is missing, unreadable or
  zero; the wheel count is good and the letter count is missing, unreadable or zero; and,
  after a good header and complete lines for fewer wheels than declared, the next line
  (i) has fewer characters than declared, all of them letters: insufficient letters;
  (ii) has no more characters than declared and holds a character that is no letter
  (and not the terminator), after letters only: invalid character; (iii) has more
  characters than declared: too many letters. A short line is ended by a line end, or by
  the end of the file when it is not empty.
\<close>

theorem ReadWheelFile_errors:
  "(number_field content = [] \<or> decimal (number_field content) = 0 \<longrightarrow>
      aborts_with content InvalidWheelCount)
   \<and> (count_field ds1 (2 ^ 32) \<and> (rest1 = [] \<or> \<not> isdigit_c (hd rest1))
        \<and> (number_field rest1 = [] \<or> decimal (number_field rest1) = 0) \<longrightarrow>
      aborts_with (ds1 @ rest1) InvalidLettersPerWheel)
   \<and> (wheel_prefix_ok ds1 sep ds2 full
        \<and> list_all isalpha_c bad \<and> length bad < nat (decimal ds2)
        \<and> (tail = [] \<and> bad \<noteq> [] \<or> tail \<noteq> [] \<and> hd tail = NL) \<longrightarrow>
      aborts_with (wheel_text ds1 sep ds2 full (bad @ tail)) InsufficientLetters)
   \<and> (wheel_prefix_ok ds1 sep ds2 full
        \<and> list_all isalpha_c pre \<and> \<not> isalpha_c c \<and> c \<noteq> NUL \<and> NL \<notin> set (c # post)
        \<and> length (pre @ c # post) \<le> nat (decimal ds2)
        \<and> (tail = [] \<or> hd tail = NL) \<longrightarrow>
      aborts_with (wheel_text ds1 sep ds2 full (pre @ c # post @ tail)) NonAlphabetical)
   \<and> (wheel_prefix_ok ds1 sep ds2 full
        \<and> length long = Suc (nat (decimal ds2)) \<and> NL \<notin> set long \<longrightarrow>
      aborts_with (wheel_text ds1 sep ds2 full (long @ tail)) TooManyLetters)"
proof (intro conjI impI; (elim conjE)?)
  assume "number_field content = [] \<or> decimal (number_field content) = 0"
  then show "aborts_with content InvalidWheelCount"
    by (intro aborts_withI ReadWheelFile_no_count) simp_all
next
  assume "count_field ds1 (2 ^ 32)" "rest1 = [] \<or> \<not> isdigit_c (hd rest1)"
    "number_field rest1 = [] \<or> decimal (number_field rest1) = 0"
  then show "aborts_with (ds1 @ rest1) InvalidLettersPerWheel"
    by (intro aborts_withI ReadWheelFile_no_letters) simp_all
next
  assume p: "wheel_prefix_ok ds1 sep ds2 full"
    and b: "list_all isalpha_c bad" "length bad < nat (decimal ds2)"
      "tail = [] \<and> bad \<noteq> [] \<or> tail \<noteq> [] \<and> hd tail = NL"
  note at = ReadWheelFile_at_line [OF p]
  show "aborts_with (wheel_text ds1 sep ds2 full (bad @ tail)) InsufficientLetters"
    using ReadWheelFile_wheels_short [OF at(2,3,4,5) b(1) _ b(3)] b(2)
    by (intro aborts_withI) (simp_all add: at(1) at(6))
next
  assume p: "wheel_prefix_ok ds1 sep ds2 full"
    and b: "list_all isalpha_c pre" "\<not> isalpha_c c" "c \<noteq> NUL" "NL \<notin> set (c # post)"
      "length (pre @ c # post) \<le> nat (decimal ds2)" "tail = [] \<or> hd tail = NL"
  note at = ReadWheelFile_at_line [OF p]
  have "length pre < unat (word_of_int (decimal ds2) :: uint)" using b(5) at(6) by simp
  moreover have "length (pre @ c # post) \<le> unat (word_of_int (decimal ds2) :: uint)"
    using b(5) at(6) by simp
  ultimately show "aborts_with (wheel_text ds1 sep ds2 full (pre @ c # post @ tail)) NonAlphabetical"
    using ReadWheelFile_wheels_bad_letter [OF at(2,3,4,5) b(1,2,4) _ _ b(6)] b(3)
    by (intro aborts_withI) (simp_all add: at(1))
next
  assume p: "wheel_prefix_ok ds1 sep ds2 full"
    and b: "length long = Suc (nat (decimal ds2))" "NL \<notin> set long"
  note at = ReadWheelFile_at_line [OF p]
  show "aborts_with (wheel_text ds1 sep ds2 full (long @ tail)) TooManyLetters"
    using ReadWheelFile_wheels_too_many [OF at(2,3) _ b(2)] b(1)
    by (intro aborts_withI) (simp_all add: at(1) at(6))
qed


theorem ReadWheelFile_errors_witness:
  "ReadWheelFile (Some ''x 3'') 0 0 = Inl InvalidWheelCount
   \<and> ReadWheelFile (Some (''0 3'' @ [NL] @ ''abc'')) 0 0 = Inl InvalidWheelCount
   \<and> ReadWheelFile (Some ''3 x'') 0 0 = Inl InvalidLettersPerWheel
   \<and> ReadWheelFile (Some (''3 0'' @ [NL] @ ''abc'')) 0 0 = Inl InvalidLettersPerWheel
   \<and> ReadWheelFile (Some (''2 3'' @ [NL] @ ''abc'' @ [NL] @ ''ab'' @ [NL])) 0 0 = Inl InsufficientLetters
   \<and> ReadWheelFile (Some (''2 3'' @ [NL] @ ''abc'' @ [NL] @ ''a1c'')) 0 0 = Inl NonAlphabetical
   \<and> ReadWheelFile (Some (''2 3'' @ [NL] @ ''abc'' @ [NL] @ ''abcd'' @ [NL])) 0 0 = Inl TooManyLetters
   \<and> main (Some (''2 3'' @ [NL] @ ''abc'' @ [NL] @ ''ab'' @ [NL])) (Some ''abc'') =
       [PrintError InsufficientLetters, PrintExit]"
proof -
  have p: "wheel_prefix_ok ''2'' '' '' ''3'' [''abc'']"
    by (simp add: wheel_prefix_ok_def count_field_def decimal_def isdigit_c_def isspace_c_def
        isalpha_c_def)
  have d: "decimal ''3'' = 3" "decimal ''0'' = 0" by (simp_all add: decimal_def)
  note t = ReadWheelFile_errors [where ?ds1.0 = "''2''" and sep = "'' ''" and ?ds2.0 = "''3''"
      and full = "[''abc'']"]
  have "aborts_with ''x 3'' InvalidWheelCount"
    using ReadWheelFile_errors [where content = "''x 3''", THEN conjunct1]
    by (simp add: number_field_def skip_sign_def isspace_c_def isdigit_c_def)
  moreover have "aborts_with (''0 3'' @ [NL] @ ''abc'') InvalidWheelCount"
    using ReadWheelFile_errors [where content = "''0 3'' @ [NL] @ ''abc''", THEN conjunct1]
    by (simp add: number_field_def skip_sign_def isspace_c_def isdigit_c_def decimal_def NL_def)
  moreover have "aborts_with (''3'' @ '' x'') InvalidLettersPerWheel"
    using ReadWheelFile_errors [where ?ds1.0 = "''3''" and ?rest1.0 = "'' x''",
        THEN conjunct2, THEN conjunct1]
    by (simp add: number_field_def skip_sign_def isspace_c_def isdigit_c_def count_field_def
        decimal_def NL_def)
  moreover have "aborts_with (''3'' @ '' 0'' @ [NL] @ ''abc'') InvalidLettersPerWheel"
    using ReadWheelFile_errors [where ?ds1.0 = "''3''" and ?rest1.0 = "'' 0'' @ [NL] @ ''abc''",
        THEN conjunct2, THEN conjunct1]
    by (simp add: number_field_def skip_sign_def isspace_c_def isdigit_c_def count_field_def
        decimal_def NL_def)
  moreover have "aborts_with (wheel_text ''2'' '' '' ''3'' [''abc''] (''ab'' @ [NL])) InsufficientLetters"
    using t [where bad = "''ab''" and tail = "[NL]", THEN conjunct2, THEN conjunct2, THEN conjunct1] p
    by (simp add: isalpha_c_def d)
  moreover have "aborts_with (wheel_text ''2'' '' '' ''3'' [''abc''] (''a'' @ CHR ''1'' # ''c'' @ []))
      NonAlphabetical"
    using t [where pre = "''a''" and c = "CHR ''1''" and post = "''c''" and tail = "[]",
        THEN conjunct2, THEN conjunct2, THEN conjunct2, THEN conjunct1] p
    by (simp add: isalpha_c_def d NUL_def NL_def)
  moreover have "aborts_with (wheel_text ''2'' '' '' ''3'' [''abc''] (''abcd'' @ [NL])) TooManyLetters"
    using t [where long = "''abcd''" and tail = "[NL]",
        THEN conjunct2, THEN conjunct2, THEN conjunct2, THEN conjunct2] p
    by (simp add: d NL_def)
  ultimately show ?thesis
    by (simp add: aborts_with_def wheel_text_def lines_text_def)
qed

section \<open>The scenarios of the specification, run\<close>

text \<open>
  Scenario A (three wheels \<open>ab\<close>; words \<open>ab, abc, ba\<close>), B (wheel count 0),
  C (a line \<open>ab\<close> where three letters are declared), D (a line \<open>abc123\<close> is skipped)
  and E (one wheel with all 26 letters), and a dictionary that ends with a line end:
  the last \<^verbatim>\<open>getline\<close> then extracts nothing and the run ends with the exception
  for a word that is too long, after the matches and without the total.
\<close>

lemma scenario_A:
  "main (Some (''3 2'' @ [NL] @ ''ab'' @ [NL] @ ''ab'' @ [NL] @ ''ab''))
        (Some (''ab'' @ [NL] @ ''abc'' @ [NL] @ ''ba'')) =
     [PrintWord ''ab'', PrintWord ''ba'', PrintFound 4, PrintExit]"
  by code_simp

lemma scenario_B:
  "main (Some (''0 2'' @ [NL] @ ''ab'')) (Some ''ab'') = [PrintError InvalidWheelCount, PrintExit]"
  by code_simp

lemma scenario_C:
  "main (Some (''1 3'' @ [NL] @ ''ab'' @ [NL])) (Some ''ab'') =
     [PrintError InsufficientLetters, PrintExit]"
  by code_simp

lemma scenario_D:
  "main (Some (''3 2'' @ [NL] @ ''ab'' @ [NL] @ ''ab'' @ [NL] @ ''ab''))
        (Some (''abc123'' @ [NL] @ ''ba'')) =
     [PrintWord ''ba'', PrintFound 2, PrintExit]"
  by code_simp

lemma scenario_E:
  "main (Some (''1 26'' @ [NL] @ ''abcdefghijklmnopqrstuvwxyz'')) (Some (''q'' @ [NL] @ ''Z'')) =
     [PrintWord ''q'', PrintWord ''z'', PrintFound 2, PrintExit]"
  by code_simp

lemma trailing_line_end:
  "main (Some (''3 2'' @ [NL] @ ''ab'' @ [NL] @ ''ab'' @ [NL] @ ''ab''))
        (Some (''ab'' @ [NL])) =
     [PrintWord ''ab'', PrintError WordTooLong, PrintExit]"
  by code_simp

end
